theory Spec2Isabelle
  imports Complex_Main "HOL-Library.Multiset"
begin

section \<open>JavaScript values and strings\<close>

text \<open>
  The model of \<^verbatim>\<open>src/assets/js/rics-store.js\<close> (class \<^verbatim>\<open>RICSStore\<close>): what the methods
  do to \<^verbatim>\<open>this.items\<close>, \<^verbatim>\<open>this.filteredItems\<close> and \<^verbatim>\<open>this.currentSort\<close>. The page
  (\<^verbatim>\<open>renderItems\<close>, the sort indicators, the listeners) is no part of that state.

  A value read from a record with \<^verbatim>\<open>a[field]\<close> is dynamically typed. Numbers are the
  rationals they denote: the code never computes with them, it only tests them for
  zero and compares them. Strings are lists of code units below 256.
\<close>

datatype jsval = JUndefined | JNull | JBool bool | JNum rat | JStr string

datatype js_error = TypeError | Error

text \<open>\<^verbatim>\<open>String.prototype.toLowerCase\<close> on code units below 256: A-Z and the
  capital letters of Latin-1 (0xC0-0xDE but the multiplication sign 0xD7) move up by 32.\<close>

definition toLowerCase_char :: "char \<Rightarrow> char" where
  "toLowerCase_char c =
     (let n = (of_char c :: nat) in
      if (65 \<le> n \<and> n \<le> 90) \<or> (192 \<le> n \<and> n \<le> 222 \<and> n \<noteq> 215)
      then char_of (n + 32) else c)"

definition toLowerCase :: "string \<Rightarrow> string" where
  "toLowerCase s = map toLowerCase_char s"

text \<open>\<^verbatim>\<open>String.prototype.trim\<close>: white space and line terminators below 256 are
  TAB, LF, VT, FF, CR, SP and NBSP.\<close>

definition isWhiteSpace :: "char \<Rightarrow> bool" where
  "isWhiteSpace c =
     (let n = (of_char c :: nat) in (9 \<le> n \<and> n \<le> 13) \<or> n = 32 \<or> n = 160)"

definition trim :: "string \<Rightarrow> string" where
  "trim s = rev (dropWhile isWhiteSpace (rev (dropWhile isWhiteSpace s)))"

definition startsWith :: "string \<Rightarrow> string \<Rightarrow> bool" where
  "startsWith s t = (take (length t) s = t)"

text \<open>\<^verbatim>\<open>s.includes(t)\<close>: \<open>t\<close> starts at some position of \<open>s\<close>.\<close>

fun includes_str :: "string \<Rightarrow> string \<Rightarrow> bool" where
  "includes_str [] t = (t = [])"
| "includes_str (c # cs) t = (startsWith (c # cs) t \<or> includes_str cs t)"

text \<open>The relational comparison of two strings: by code units, a proper prefix first.\<close>

fun str_lt :: "string \<Rightarrow> string \<Rightarrow> bool" where
  "str_lt [] [] = False"
| "str_lt [] (y # ys) = True"
| "str_lt (x # xs) [] = False"
| "str_lt (x # xs) (y # ys) =
     (if (of_char x :: nat) < of_char y then True
      else if (of_char y :: nat) < of_char x then False
      else str_lt xs ys)"

text \<open>\<^verbatim>\<open>ToNumber\<close>, with \<open>None\<close> for NaN. The numeric reading of a string (ECMAScript's
  StringToNumber) is the parameter \<open>tn\<close>: the comparator reaches it only when a number
  or a boolean meets a string, and every result below holds for each choice of it.\<close>

fun ToNumber :: "(string \<Rightarrow> rat option) \<Rightarrow> jsval \<Rightarrow> rat option" where
  "ToNumber tn JUndefined = None"
| "ToNumber tn JNull = Some 0"
| "ToNumber tn (JBool b) = Some (if b then 1 else 0)"
| "ToNumber tn (JNum x) = Some x"
| "ToNumber tn (JStr s) = tn s"

text \<open>\<^verbatim>\<open>a < b\<close>: two strings compare as strings, anything else as numbers, and a
  comparison with NaN is false.\<close>

fun js_less :: "(string \<Rightarrow> rat option) \<Rightarrow> jsval \<Rightarrow> jsval \<Rightarrow> bool" where
  "js_less tn (JStr s) (JStr t) = str_lt s t"
| "js_less tn a b =
     (case ToNumber tn a of
        None \<Rightarrow> False
      | Some x \<Rightarrow> (case ToNumber tn b of None \<Rightarrow> False | Some y \<Rightarrow> x < y))"

section \<open>escapeHtml\<close>

text \<open>\<^verbatim>\<open>s.replace(/c/g, r)\<close> for a one-character pattern and a replacement without
  \<^verbatim>\<open>$\<close>.\<close>

definition replaceAll :: "char \<Rightarrow> string \<Rightarrow> string \<Rightarrow> string" where
  "replaceAll c r s = concat (map (\<lambda>x. if x = c then r else [x]) s)"

fun escapeHtml :: "jsval \<Rightarrow> jsval" where
  "escapeHtml (JStr unsafe) =
     JStr (replaceAll (CHR 0x27) ''&#039;''
            (replaceAll (CHR 0x22) ''&quot;''
              (replaceAll CHR ''>'' ''&gt;''
                (replaceAll CHR ''<'' ''&lt;''
                  (replaceAll CHR ''&'' ''&amp;'' unsafe)))))"
| "escapeHtml unsafe = unsafe"

text \<open>The entity of one character, and the test that every ampersand of a text starts
  one of the five entities: what the claim about \<open>escapeHtml\<close> is stated with.\<close>

definition entity :: "char \<Rightarrow> string" where
  "entity c =
     (if c = CHR ''&'' then ''&amp;''
      else if c = CHR ''<'' then ''&lt;''
      else if c = CHR ''>'' then ''&gt;''
      else if c = CHR 0x22 then ''&quot;''
      else if c = CHR 0x27 then ''&#039;''
      else [c])"

fun ampersands_ok :: "string \<Rightarrow> bool" where
  "ampersands_ok [] = True"
| "ampersands_ok (c # cs) =
     ((if c = CHR ''&''
       then startsWith cs ''amp;'' \<or> startsWith cs ''lt;'' \<or> startsWith cs ''gt;''
            \<or> startsWith cs ''quot;'' \<or> startsWith cs ''#039;''
       else True) \<and> ampersands_ok cs)"

section \<open>Records of the catalogue\<close>

text \<open>A property of a parsed JSON object that may be missing (\<open>Undefined\<close>) or
  \<^verbatim>\<open>null\<close>; a present value has the type the catalogue gives the property: a string for
  the names, the category, the limit mode, the mod and the karma type, a number for the
  price, the weight and the quantity limit, a boolean for the enabled flag.\<close>

datatype 'a opt = Undefined | Null | Val 'a

record itemData =
  CustomName :: "string opt"
  BasePrice :: "rat opt"
  Category :: "string opt"
  Weight :: "rat opt"
  QuantityLimit :: "rat opt"
  LimitMode :: "string opt"
  Mod :: "string opt"
  Enabled :: "bool opt"
  KarmaType :: "string opt"

text \<open>The records of \<^verbatim>\<open>this.items\<close>. The field \<^verbatim>\<open>mod\<close> is \<open>mod_field\<close> here.\<close>

record item =
  defname :: string
  name :: string
  price :: rat
  category :: string
  weight :: rat
  quantityLimit :: rat
  limitMode :: "string opt"
  mod_field :: "string opt"
  enabled :: bool
  karmaType :: "string opt"

text \<open>\<^verbatim>\<open>v || d\<close>: \<open>d\<close> when \<open>v\<close> is missing, null, the empty string or zero.\<close>

definition or_string :: "string opt \<Rightarrow> string \<Rightarrow> string" where
  "or_string v d = (case v of Val s \<Rightarrow> if s = [] then d else s | _ \<Rightarrow> d)"

definition or_number :: "rat opt \<Rightarrow> rat \<Rightarrow> rat" where
  "or_number v d = (case v of Val n \<Rightarrow> if n = 0 then d else n | _ \<Rightarrow> d)"

text \<open>The callback of \<^verbatim>\<open>.map\<close> in \<open>loadItems\<close>, on one entry of
  \<^verbatim>\<open>Object.entries(data)\<close>. The value of an entry is \<open>None\<close> when it is
  \<^verbatim>\<open>null\<close>: reading a property of it throws.\<close>

fun mapEntry :: "string \<times> itemData option \<Rightarrow> js_error + item" where
  "mapEntry (dn, None) = Inl TypeError"
| "mapEntry (dn, Some d) =
     Inr \<lparr> defname = dn,
           name = or_string (CustomName d) dn,
           price = or_number (BasePrice d) 0,
           category = or_string (Category d) ''Misc'',
           weight = or_number (Weight d) 0,
           quantityLimit = or_number (QuantityLimit d) 0,
           limitMode = LimitMode d,
           mod_field = Mod d,
           enabled = (Enabled d \<noteq> Val False),
           karmaType = KarmaType d \<rparr>"

fun mapEntries :: "(string \<times> itemData option) list \<Rightarrow> js_error + item list" where
  "mapEntries [] = Inr []"
| "mapEntries (e # es) =
     (case mapEntry e of
        Inl err \<Rightarrow> Inl err
      | Inr i \<Rightarrow> (case mapEntries es of Inl err \<Rightarrow> Inl err | Inr is \<Rightarrow> Inr (i # is)))"

definition sampleData :: "item list" where
  "sampleData =
     [ \<lparr> defname = ''TextBook'', name = ''Textbook'', price = 267, category = ''Books'',
         weight = 1, quantityLimit = 5, limitMode = Val ''OneStack'', mod_field = Val ''Core'',
         enabled = True, karmaType = Null \<rparr>,
       \<lparr> defname = ''MedicineHerbal'', name = ''Herbal Medicine'', price = 150,
         category = ''Medical'', weight = 1 / 10, quantityLimit = 25,
         limitMode = Val ''OneStack'', mod_field = Val ''Core'', enabled = True,
         karmaType = Null \<rparr>,
       \<lparr> defname = ''Pemmican'', name = ''Pemmican'', price = 80, category = ''Food'',
         weight = 1 / 20, quantityLimit = 100, limitMode = Val ''OneStack'',
         mod_field = Val ''Core'', enabled = True, karmaType = Null \<rparr> ]"

section \<open>The store\<close>

text \<open>
  \<^verbatim>\<open>this.items\<close> and \<^verbatim>\<open>this.filteredItems\<close> hold references to arrays, and
  \<^verbatim>\<open>sort\<close> works in place: the arrays live in a heap, \<open>nextRef\<close> is the first
  address never given out.
\<close>

datatype direction = Asc | Desc

record sort_state =
  field :: string
  direction :: direction

record store =
  heap :: "nat \<Rightarrow> item list"
  nextRef :: nat
  items :: nat
  filteredItems :: nat
  currentSort :: sort_state

definition new_array :: "item list \<Rightarrow> store \<Rightarrow> nat \<times> store" where
  "new_array xs st =
     (nextRef st, st\<lparr> heap := (heap st)(nextRef st := xs), nextRef := Suc (nextRef st) \<rparr>)"

text \<open>The arrays the two fields refer to.\<close>

definition itemsOf :: "store \<Rightarrow> item list" where
  "itemsOf st = heap st (items st)"

definition viewOf :: "store \<Rightarrow> item list" where
  "viewOf st = heap st (filteredItems st)"

text \<open>The constructor, before \<^verbatim>\<open>init\<close> runs: two empty arrays.\<close>

definition constructor :: store where
  "constructor =
     \<lparr> heap = (\<lambda>_. []), nextRef = 2, items = 0, filteredItems = 1,
       currentSort = \<lparr> field = ''name'', direction = Asc \<rparr> \<rparr>"

text \<open>\<^verbatim>\<open>this.items = xs; this.filteredItems = [...this.items]\<close>, where \<open>xs\<close> is a new
  array.\<close>

definition set_items :: "item list \<Rightarrow> store \<Rightarrow> store" where
  "set_items xs st =
     (let (r, st1) = new_array xs st;
          st2 = st1\<lparr> items := r \<rparr>;
          (r', st3) = new_array (heap st2 (items st2)) st2
      in st3\<lparr> filteredItems := r' \<rparr>)"

definition loadSampleData :: "store \<Rightarrow> store" where
  "loadSampleData st = set_items sampleData st"

subsection \<open>loadItems\<close>

text \<open>What one \<^verbatim>\<open>fetch(path)\<close> followed by \<^verbatim>\<open>response.json()\<close> comes to: \<open>fetch\<close>
  throws, the response is not ok, \<open>json()\<close> throws, or a document is parsed. A parsed
  document is falsy (\<^verbatim>\<open>null\<close>, \<^verbatim>\<open>false\<close>, \<^verbatim>\<open>0\<close>, \<^verbatim>\<open>""\<close>) or has entries.\<close>

datatype json = JsonFalsy | JsonObject "(string \<times> itemData option) list"

datatype response = FetchThrows | NotOk | JsonThrows | Parsed json

definition paths :: "string list" where
  "paths = [''data/StoreItems.json'', ''../data/StoreItems.json'',
            ''./data/StoreItems.json'', ''StoreItems.json'']"

text \<open>The loop over the paths: \<open>data\<close> is the first parsed document, \<open>None\<close> for
  \<^verbatim>\<open>null\<close> when there is none.\<close>

fun fetchFirst :: "(string \<Rightarrow> response) \<Rightarrow> string list \<Rightarrow> json option" where
  "fetchFirst fetch [] = None"
| "fetchFirst fetch (p # ps) =
     (case fetch p of Parsed d \<Rightarrow> Some d | _ \<Rightarrow> fetchFirst fetch ps)"

text \<open>The body of the \<^verbatim>\<open>try\<close> block.\<close>

definition loadItems_try :: "(string \<Rightarrow> response) \<Rightarrow> store \<Rightarrow> js_error + store" where
  "loadItems_try fetch st =
     (case fetchFirst fetch paths of
        None \<Rightarrow> Inl Error
      | Some JsonFalsy \<Rightarrow> Inl Error
      | Some (JsonObject es) \<Rightarrow>
          (case mapEntries es of
             Inl err \<Rightarrow> Inl err
           | Inr xs \<Rightarrow> Inr (set_items (filter (\<lambda>i. enabled i \<and> 0 < price i) xs) st)))"

definition loadItems :: "(string \<Rightarrow> response) \<Rightarrow> store \<Rightarrow> store" where
  "loadItems fetch st =
     (case loadItems_try fetch st of Inl err \<Rightarrow> loadSampleData st | Inr st' \<Rightarrow> st')"

subsection \<open>sortItems\<close>

fun opt_val :: "string opt \<Rightarrow> jsval" where
  "opt_val Undefined = JUndefined"
| "opt_val Null = JNull"
| "opt_val (Val s) = JStr s"

text \<open>\<^verbatim>\<open>a[field]\<close>; a name that is no field of the record gives \<^verbatim>\<open>undefined\<close>. (A
  name inherited from \<^verbatim>\<open>Object.prototype\<close> gives the same function or object for every
  record, which the comparator ties as it ties \<^verbatim>\<open>undefined\<close> with \<^verbatim>\<open>undefined\<close>.)\<close>

definition get_field :: "item \<Rightarrow> string \<Rightarrow> jsval" where
  "get_field a fld =
     (if fld = ''defname'' then JStr (defname a)
      else if fld = ''name'' then JStr (name a)
      else if fld = ''price'' then JNum (price a)
      else if fld = ''category'' then JStr (category a)
      else if fld = ''weight'' then JNum (weight a)
      else if fld = ''quantityLimit'' then JNum (quantityLimit a)
      else if fld = ''limitMode'' then opt_val (limitMode a)
      else if fld = ''mod'' then opt_val (mod_field a)
      else if fld = ''enabled'' then JBool (enabled a)
      else if fld = ''karmaType'' then opt_val (karmaType a)
      else JUndefined)"

text \<open>\<^verbatim>\<open>if (v == null) v = ''\<close>.\<close>

fun coerce_null :: "jsval \<Rightarrow> jsval" where
  "coerce_null JUndefined = JStr []"
| "coerce_null JNull = JStr []"
| "coerce_null v = v"

text \<open>\<^verbatim>\<open>v.toLowerCase()\<close>: a number or a boolean has no such method.\<close>

fun toLowerCase_val :: "jsval \<Rightarrow> js_error + jsval" where
  "toLowerCase_val (JStr s) = Inr (JStr (toLowerCase s))"
| "toLowerCase_val v = Inl TypeError"

text \<open>The comparator of \<open>sortItems\<close>, from the two values read.\<close>

definition compareValues ::
  "(string \<Rightarrow> rat option) \<Rightarrow> direction \<Rightarrow> jsval \<Rightarrow> jsval \<Rightarrow> js_error + int" where
  "compareValues tn dir a0 b0 =
     (let aValue = coerce_null a0; bValue = coerce_null b0 in
      case (case aValue of
              JStr s \<Rightarrow>
                (case toLowerCase_val bValue of
                   Inl err \<Rightarrow> Inl err
                 | Inr b' \<Rightarrow> Inr (JStr (toLowerCase s), b'))
            | _ \<Rightarrow> Inr (aValue, bValue)) of
        Inl err \<Rightarrow> Inl err
      | Inr (a', b') \<Rightarrow>
          Inr (if js_less tn a' b' then (if dir = Asc then - 1 else 1)
               else if js_less tn b' a' then (if dir = Asc then 1 else - 1)
               else 0))"

definition compareFn ::
  "(string \<Rightarrow> rat option) \<Rightarrow> string \<Rightarrow> direction \<Rightarrow> item \<Rightarrow> item \<Rightarrow> js_error + int" where
  "compareFn tn fld dir a b = compareValues tn dir (get_field a fld) (get_field b fld)"

text \<open>\<^verbatim>\<open>Array.prototype.sort\<close> with a comparator: a stable sort, here by insertion
  from the right; an exception of the comparator ends it. With a consistent comparator
  the language fixes the result, whatever the algorithm (\<open>sortBy_unique\<close> below).\<close>

fun insertBy :: "('a \<Rightarrow> 'a \<Rightarrow> js_error + int) \<Rightarrow> 'a \<Rightarrow> 'a list \<Rightarrow> js_error + 'a list" where
  "insertBy c x [] = Inr [x]"
| "insertBy c x (y # ys) =
     (case c x y of
        Inl err \<Rightarrow> Inl err
      | Inr r \<Rightarrow>
          if r \<le> 0 then Inr (x # y # ys)
          else (case insertBy c x ys of Inl err \<Rightarrow> Inl err | Inr zs \<Rightarrow> Inr (y # zs)))"

fun sortBy :: "('a \<Rightarrow> 'a \<Rightarrow> js_error + int) \<Rightarrow> 'a list \<Rightarrow> js_error + 'a list" where
  "sortBy c [] = Inr []"
| "sortBy c (x # xs) =
     (case sortBy c xs of Inl err \<Rightarrow> Inl err | Inr ys \<Rightarrow> insertBy c x ys)"

definition flip :: "direction \<Rightarrow> direction" where
  "flip d = (if d = Asc then Desc else Asc)"

definition update_sort :: "string \<Rightarrow> bool \<Rightarrow> sort_state \<Rightarrow> sort_state" where
  "update_sort fld changeDirection cs =
     (if changeDirection
      then (if field cs = fld then cs\<lparr> direction := flip (direction cs) \<rparr>
            else cs\<lparr> field := fld, direction := Asc \<rparr>)
      else cs)"

definition sortItems ::
  "(string \<Rightarrow> rat option) \<Rightarrow> string \<Rightarrow> bool \<Rightarrow> store \<Rightarrow> js_error + store" where
  "sortItems tn fld changeDirection st =
     (let st1 = st\<lparr> currentSort := update_sort fld changeDirection (currentSort st) \<rparr> in
      case sortBy (compareFn tn fld (direction (currentSort st1))) (heap st1 (filteredItems st1)) of
        Inl err \<Rightarrow> Inl err
      | Inr ys \<Rightarrow> Inr (st1\<lparr> heap := (heap st1)(filteredItems st1 := ys) \<rparr>))"

subsection \<open>filterItems\<close>

text \<open>The callback of \<^verbatim>\<open>.filter\<close>; \<^verbatim>\<open>x && e\<close> is false for an empty or absent
  \<open>x\<close>.\<close>

definition matches :: "string \<Rightarrow> item \<Rightarrow> bool" where
  "matches term i =
     (includes_str (toLowerCase (name i)) term
      \<or> (category i \<noteq> [] \<and> includes_str (toLowerCase (category i)) term)
      \<or> (case mod_field i of
            Val m \<Rightarrow> m \<noteq> [] \<and> includes_str (toLowerCase m) term
          | _ \<Rightarrow> False)
      \<or> (defname i \<noteq> [] \<and> includes_str (toLowerCase (defname i)) term))"

definition filterItems ::
  "(string \<Rightarrow> rat option) \<Rightarrow> string \<Rightarrow> store \<Rightarrow> js_error + store" where
  "filterItems tn searchTerm st =
     (let term = trim (toLowerCase searchTerm);
          (r, st1) = new_array (if term = [] then heap st (items st)
                                else filter (matches term) (heap st (items st))) st;
          st2 = st1\<lparr> filteredItems := r \<rparr>
      in sortItems tn (field (currentSort st2)) False st2)"

section \<open>Notions the properties are stated with\<close>

text \<open>A comparator puts \<open>a\<close> before or level with \<open>b\<close> when it returns a number that
  is not positive, and ties them when it returns 0.\<close>

definition precedes :: "('a \<Rightarrow> 'a \<Rightarrow> js_error + int) \<Rightarrow> 'a \<Rightarrow> 'a \<Rightarrow> bool" where
  "precedes c a b = (case c a b of Inr r \<Rightarrow> r \<le> 0 | Inl err \<Rightarrow> False)"

definition tie :: "('a \<Rightarrow> 'a \<Rightarrow> js_error + int) \<Rightarrow> 'a \<Rightarrow> 'a \<Rightarrow> bool" where
  "tie c a b = (c a b = Inr 0)"

text \<open>A consistent comparator, for which the order \<^verbatim>\<open>sort\<close> produces is fixed by the
  language: it never throws, it is total and transitive, and it ties two elements exactly
  when each may come before the other.\<close>

definition consistent :: "('a \<Rightarrow> 'a \<Rightarrow> js_error + int) \<Rightarrow> bool" where
  "consistent c =
     ((\<forall>a b. \<exists>r. c a b = Inr r)
      \<and> (\<forall>a b. precedes c a b \<or> precedes c b a)
      \<and> (\<forall>a b d. precedes c a b \<longrightarrow> precedes c b d \<longrightarrow> precedes c a d)
      \<and> (\<forall>a b. tie c a b = (precedes c a b \<and> precedes c b a)))"

definition three_way :: "direction \<Rightarrow> bool \<Rightarrow> bool \<Rightarrow> int" where
  "three_way dir lt gt =
     (if lt then (if dir = Asc then - 1 else 1)
      else if gt then (if dir = Asc then 1 else - 1)
      else 0)"

text \<open>What the comparator compares on a field of strings: null as the empty string,
  in lower case.\<close>

definition string_key :: "string \<Rightarrow> item \<Rightarrow> string" where
  "string_key fld a = (case coerce_null (get_field a fld) of JStr s \<Rightarrow> toLowerCase s | _ \<Rightarrow> [])"

text \<open>The substring relation, a case-insensitive occurrence, and the match of a record
  as the specification words it: the term occurs, whatever the case, in the display
  name, the category, the mod when there is one, or the identifier.\<close>

definition occurs_in :: "string \<Rightarrow> string \<Rightarrow> bool" where
  "occurs_in t s = (\<exists>u v. s = u @ t @ v)"

definition contains_ci :: "string \<Rightarrow> string \<Rightarrow> bool" where
  "contains_ci s t = occurs_in (toLowerCase t) (toLowerCase s)"

definition spec_matches :: "string \<Rightarrow> item \<Rightarrow> bool" where
  "spec_matches t i =
     (contains_ci (name i) t \<or> contains_ci (category i) t
      \<or> (case mod_field i of Val m \<Rightarrow> contains_ci m t | _ \<Rightarrow> False)
      \<or> contains_ci (defname i) t)"

text \<open>The two fields refer to different arrays that have been allocated.\<close>

definition wf_store :: "store \<Rightarrow> bool" where
  "wf_store st = (items st < nextRef st \<and> filteredItems st < nextRef st \<and> items st \<noteq> filteredItems st)"

text \<open>What the event listeners call, and a sequence of such calls.\<close>

datatype action = FilterItems string | SortItems string bool

fun perform :: "(string \<Rightarrow> rat option) \<Rightarrow> action \<Rightarrow> store \<Rightarrow> js_error + store" where
  "perform tn (FilterItems searchTerm) st = filterItems tn searchTerm st"
| "perform tn (SortItems fld changeDirection) st = sortItems tn fld changeDirection st"

fun run :: "(string \<Rightarrow> rat option) \<Rightarrow> action list \<Rightarrow> store \<Rightarrow> js_error + store" where
  "run tn [] st = Inr st"
| "run tn (a # as) st =
     (case perform tn a st of Inl err \<Rightarrow> Inl err | Inr st' \<Rightarrow> run tn as st')"

text \<open>What filtering with the empty term after filtering with \<open>t\<close> comes to on the store
  \<open>st\<close>: both calls return; the working set and the sort state are as before; the view is
  the working set sorted by the sort state; and filtering with the empty term once more
  gives the same view.\<close>

definition restores :: "(string \<Rightarrow> rat option) \<Rightarrow> string \<Rightarrow> store \<Rightarrow> bool" where
  "restores tn t st =
     (\<exists>st1 st2. filterItems tn t st = Inr st1 \<and> filterItems tn [] st1 = Inr st2
        \<and> itemsOf st2 = itemsOf st \<and> currentSort st2 = currentSort st
        \<and> sortBy (compareFn tn (field (currentSort st)) (direction (currentSort st))) (itemsOf st)
            = Inr (viewOf st2)
        \<and> mset (viewOf st2) = mset (itemsOf st)
        \<and> (\<exists>st3. filterItems tn [] st2 = Inr st3 \<and> viewOf st3 = viewOf st2))"

subsection \<open>Example inputs\<close>

text \<open>The object \<^verbatim>\<open>{}\<close>, a server that has one document at one path, and two
  catalogues.\<close>

definition empty_data :: itemData where
  "empty_data = \<lparr> CustomName = Undefined, BasePrice = Undefined, Category = Undefined,
      Weight = Undefined, QuantityLimit = Undefined, LimitMode = Undefined, Mod = Undefined,
      Enabled = Undefined, KarmaType = Undefined \<rparr>"

definition fetch_from :: "string \<Rightarrow> json \<Rightarrow> string \<Rightarrow> response" where
  "fetch_from path doc p = (if p = path then Parsed doc else NotOk)"

definition textbook_catalog :: "(string \<times> itemData option) list" where
  "textbook_catalog =
     [(''TextBook'', Some (empty_data\<lparr> BasePrice := Val 267, Category := Val ''Books'' \<rparr>))]"

definition mixed_catalog :: "(string \<times> itemData option) list" where
  "mixed_catalog =
     [(''Kept'', Some (empty_data\<lparr> BasePrice := Val 5, Enabled := Val True \<rparr>)),
      (''Free'', Some (empty_data\<lparr> BasePrice := Val 0 \<rparr>)),
      (''Unpriced'', Some empty_data),
      (''Off'', Some (empty_data\<lparr> BasePrice := Val 9, Enabled := Val False \<rparr>)),
      (''Debt'', Some (empty_data\<lparr> BasePrice := Val (- 3), Enabled := Null \<rparr>))]"

text \<open>A reading of strings as numbers under which no string is a number, a record with
  a karma type, and a store whose view shows the sample records with the prices 80, 267
  and 150 in this order.\<close>

definition no_numbers :: "string \<Rightarrow> rat option" where
  "no_numbers s = None"

definition karma_item :: item where
  "karma_item =
     \<lparr> defname = ''Gift'', name = ''Gift'', price = 10, category = ''Misc'', weight = 0,
       quantityLimit = 0, limitMode = Undefined, mod_field = Undefined, enabled = True,
       karmaType = Val ''Good'' \<rparr>"

definition price_store :: store where
  "price_store =
     \<lparr> heap = (\<lambda>_. [])(0 := sampleData, 1 := [sampleData ! 2, sampleData ! 0, sampleData ! 1]),
       nextRef = 2, items = 0, filteredItems = 1,
       currentSort = \<lparr> field = ''name'', direction = Asc \<rparr> \<rparr>"

section \<open>Lemmas\<close>

subsection \<open>Strings\<close>

lemma replaceAll_Nil: "replaceAll c r [] = []"
  by (simp add: replaceAll_def)

lemma replaceAll_append: "replaceAll c r (xs @ ys) = replaceAll c r xs @ replaceAll c r ys"
  by (simp add: replaceAll_def)

lemma replaceAll_Cons: "replaceAll c r (x # xs) = (if x = c then r else [x]) @ replaceAll c r xs"
  by (simp add: replaceAll_def)

lemma escape_one_pass: "escapeHtml (JStr s) = JStr (concat (map entity s))"
proof -
  have "replaceAll (CHR 0x27) ''&#039;''
            (replaceAll (CHR 0x22) ''&quot;''
              (replaceAll CHR ''>'' ''&gt;''
                (replaceAll CHR ''<'' ''&lt;''
                  (replaceAll CHR ''&'' ''&amp;'' s)))) = concat (map entity s)"
  proof (induction s)
    case Nil
    show ?case by (simp add: replaceAll_Nil)
  next
    case (Cons x xs)
    show ?case
      using Cons.IH
      by (simp add: replaceAll_Cons replaceAll_append replaceAll_Nil entity_def)
  qed
  then show ?thesis by simp
qed

lemma entity_chars: "x \<in> set (entity c) \<Longrightarrow> x \<notin> {CHR ''<'', CHR ''>'', CHR 0x22, CHR 0x27}"
  by (auto simp: entity_def split: if_splits)

lemma ampersands_ok_entity: "ampersands_ok rest \<Longrightarrow> ampersands_ok (entity c @ rest)"
  by (simp add: entity_def startsWith_def)

lemma ampersands_ok_concat: "ampersands_ok (concat (map entity s))"
  by (induction s) (simp_all add: ampersands_ok_entity)

lemma str_lt_irrefl: "\<not> str_lt s s"
  by (induction s) simp_all

lemma str_lt_trans: "str_lt s t \<Longrightarrow> str_lt t u \<Longrightarrow> str_lt s u"
proof (induction s t arbitrary: u rule: str_lt.induct)
  case (4 x xs y ys)
  then show ?case
    by (cases u) (auto split: if_splits)
qed (auto elim: str_lt.elims)

lemma str_lt_total: "str_lt s t \<or> s = t \<or> str_lt t s"
  by (induction s t rule: str_lt.induct) (auto simp: of_char_eq_iff)

subsection \<open>Loading\<close>

lemma itemsOf_set_items: "itemsOf (set_items xs st) = xs"
  by (simp add: set_items_def new_array_def itemsOf_def)

lemma viewOf_set_items: "viewOf (set_items xs st) = xs"
  by (simp add: set_items_def new_array_def viewOf_def)

lemma sampleData_priced: "list_all (\<lambda>i. enabled i \<and> 0 < price i) sampleData"
  by (simp add: sampleData_def)

lemma itemsOf_loadItems:
  "itemsOf (loadItems fetch st) =
     (case fetchFirst fetch paths of
        Some (JsonObject es) \<Rightarrow>
          (case mapEntries es of
             Inr xs \<Rightarrow> filter (\<lambda>i. enabled i \<and> 0 < price i) xs
           | Inl err \<Rightarrow> sampleData)
      | _ \<Rightarrow> sampleData)"
  by (simp add: loadItems_def loadItems_try_def loadSampleData_def itemsOf_set_items
      split: option.splits json.splits sum.splits)

lemma viewOf_loadItems: "viewOf (loadItems fetch st) = itemsOf (loadItems fetch st)"
  by (simp add: loadItems_def loadItems_try_def loadSampleData_def itemsOf_set_items
      viewOf_set_items split: option.splits json.splits sum.splits)

lemma mapEntries_nth:
  "mapEntries es = Inr xs \<Longrightarrow>
     length xs = length es \<and> (\<forall>k < length es. mapEntry (es ! k) = Inr (xs ! k))"
proof (induction es arbitrary: xs)
  case Nil
  then show ?case by simp
next
  case (Cons e es)
  from Cons.prems obtain i ys where e: "mapEntry e = Inr i" and ys: "mapEntries es = Inr ys"
    and xs: "xs = i # ys"
    by (auto split: sum.splits)
  from Cons.IH [OF ys] have len: "length ys = length es"
    and nth: "\<forall>k < length es. mapEntry (es ! k) = Inr (ys ! k)" by simp_all
  show ?case
  proof (intro conjI allI impI)
    show "length xs = length (e # es)" using len xs by simp
  next
    fix k assume "k < length (e # es)"
    then show "mapEntry ((e # es) ! k) = Inr (xs ! k)"
      using e nth xs by (cases k) simp_all
  qed
qed

lemma mapEntries_null: "(dn, None) \<in> set es \<Longrightarrow> \<exists>err. mapEntries es = Inl err"
  by (induction es) (auto split: sum.splits)

lemma fetchFirst_none:
  "\<forall>p \<in> set ps. \<forall>d. fetch p \<noteq> Parsed d \<Longrightarrow> fetchFirst fetch ps = None"
  by (induction ps) (auto split: response.splits)

lemma textbook_example:
  "p \<in> set paths \<Longrightarrow>
   itemsOf (loadItems (fetch_from p (JsonObject textbook_catalog)) st) =
     [\<lparr> defname = ''TextBook'', name = ''TextBook'', price = 267, category = ''Books'',
        weight = 0, quantityLimit = 0, limitMode = Undefined, mod_field = Undefined,
        enabled = True, karmaType = Undefined \<rparr>]"
  by (auto simp: itemsOf_loadItems paths_def fetch_from_def textbook_catalog_def empty_data_def
      or_string_def or_number_def)

subsection \<open>Sorting with a consistent comparator\<close>

lemma insertBy_consistent:
  assumes c: "consistent c"
  shows "\<exists>zs. insertBy c x ys = Inr zs
          \<and> mset zs = add_mset x (mset ys)
          \<and> filter (tie c a) zs = filter (tie c a) (x # ys)
          \<and> (sorted_wrt (precedes c) ys \<longrightarrow> sorted_wrt (precedes c) zs)"
proof (induction ys)
  case Nil
  show ?case by simp
next
  case (Cons y ys)
  from c obtain r where r: "c x y = Inr r" unfolding consistent_def by blast
  show ?case
  proof (cases "r \<le> 0")
    case True
    then have xy: "precedes c x y" using r by (simp add: precedes_def)
    have tr: "\<And>z. precedes c y z \<Longrightarrow> precedes c x z"
      using c xy unfolding consistent_def by blast
    have "sorted_wrt (precedes c) (y # ys) \<longrightarrow> sorted_wrt (precedes c) (x # y # ys)"
      using xy tr by auto
    then show ?thesis using r True by simp
  next
    case False
    then have nxy: "\<not> precedes c x y" using r by (simp add: precedes_def)
    then have yx: "precedes c y x" using c unfolding consistent_def by blast
    from Cons.IH obtain zs where zs: "insertBy c x ys = Inr zs"
      and ms: "mset zs = add_mset x (mset ys)"
      and st: "filter (tie c a) zs = filter (tie c a) (x # ys)"
      and so: "sorted_wrt (precedes c) ys \<longrightarrow> sorted_wrt (precedes c) zs"
      by blast
    have res: "insertBy c x (y # ys) = Inr (y # zs)" using r False zs by simp
    have set_zs: "set zs = insert x (set ys)"
      using ms by (metis set_mset_add_mset_insert set_mset_mset)
    have not_both: "\<not> (tie c a x \<and> tie c a y)"
    proof
      assume both: "tie c a x \<and> tie c a y"
      then have "precedes c x a" "precedes c a y" using c unfolding consistent_def by blast+
      then have "precedes c x y" using c unfolding consistent_def by blast
      with nxy show False by simp
    qed
    have st': "filter (tie c a) (y # zs) = filter (tie c a) (x # y # ys)"
      using st not_both by auto
    have so': "sorted_wrt (precedes c) (y # ys) \<longrightarrow> sorted_wrt (precedes c) (y # zs)"
      using so yx set_zs by auto
    show ?thesis using res ms st' so' by simp
  qed
qed

lemma sortBy_consistent:
  assumes c: "consistent c"
  shows "\<exists>ys. sortBy c xs = Inr ys
          \<and> mset ys = mset xs
          \<and> filter (tie c a) ys = filter (tie c a) xs
          \<and> sorted_wrt (precedes c) ys"
proof (induction xs)
  case Nil
  show ?case by simp
next
  case (Cons x xs)
  then obtain ys where ys: "sortBy c xs = Inr ys" and ms: "mset ys = mset xs"
    and st: "filter (tie c a) ys = filter (tie c a) xs" and so: "sorted_wrt (precedes c) ys"
    by blast
  from insertBy_consistent [OF c, of x ys a] obtain zs where zs: "insertBy c x ys = Inr zs"
    and ms': "mset zs = add_mset x (mset ys)"
    and st': "filter (tie c a) zs = filter (tie c a) (x # ys)"
    and so': "sorted_wrt (precedes c) ys \<longrightarrow> sorted_wrt (precedes c) zs"
    by blast
  have "sortBy c (x # xs) = Inr zs" using ys zs by simp
  moreover have "mset zs = mset (x # xs)" using ms ms' by simp
  moreover have "filter (tie c a) zs = filter (tie c a) (x # xs)" using st st' by simp
  moreover have "sorted_wrt (precedes c) zs" using so so' by simp
  ultimately show ?case by blast
qed

subsection \<open>The comparator of sortItems is consistent\<close>

lemma consistent_by_key:
  fixes lt :: "'k \<Rightarrow> 'k \<Rightarrow> bool"
  assumes cmp: "\<And>a b. c a b = Inr (three_way dir (lt (k a) (k b)) (lt (k b) (k a)))"
    and irrefl: "\<And>u. \<not> lt u u"
    and trans: "\<And>u v w. lt u v \<Longrightarrow> lt v w \<Longrightarrow> lt u w"
    and total: "\<And>u v. lt u v \<or> u = v \<or> lt v u"
  shows "consistent c"
proof -
  have asym: "\<And>u v. lt u v \<Longrightarrow> \<not> lt v u"
    using irrefl trans by blast
  have pre: "\<And>a b. precedes c a b = (if dir = Asc then \<not> lt (k b) (k a) else \<not> lt (k a) (k b))"
    using asym by (auto simp: precedes_def cmp three_way_def)
  have ti: "\<And>a b. tie c a b = (\<not> lt (k a) (k b) \<and> \<not> lt (k b) (k a))"
    by (auto simp: tie_def cmp three_way_def)
  have negtrans: "\<And>u v w. \<not> lt v u \<Longrightarrow> \<not> lt w v \<Longrightarrow> \<not> lt w u"
    using trans total by metis
  show ?thesis
    unfolding consistent_def
  proof (intro conjI allI impI)
    fix a b show "\<exists>r. c a b = Inr r" by (simp add: cmp)
  next
    fix a b show "precedes c a b \<or> precedes c b a" using asym by (auto simp: pre)
  next
    fix a b d assume "precedes c a b" "precedes c b d"
    then show "precedes c a d" using negtrans by (auto simp: pre split: if_splits)
  next
    fix a b show "tie c a b = (precedes c a b \<and> precedes c b a)"
      by (auto simp: pre ti)
  qed
qed

lemma compareValues_strings:
  assumes "coerce_null u = JStr s" and "coerce_null v = JStr t"
  shows "compareValues tn dir u v =
           Inr (three_way dir (str_lt (toLowerCase s) (toLowerCase t))
                              (str_lt (toLowerCase t) (toLowerCase s)))"
  using assms by (simp add: compareValues_def three_way_def)

lemma compareValues_numbers:
  "compareValues tn dir (JNum x) (JNum y) = Inr (three_way dir (x < y) (y < x))"
  by (simp add: compareValues_def three_way_def)

lemma compareValues_booleans:
  "compareValues tn dir (JBool p) (JBool q) = Inr (three_way dir (\<not> p \<and> q) (\<not> q \<and> p))"
  by (simp add: compareValues_def three_way_def)

lemma coerce_opt_val: "\<exists>s. coerce_null (opt_val v) = JStr s"
  by (cases v) simp_all

lemma string_fields:
  assumes "fld \<notin> {''price'', ''weight'', ''quantityLimit'', ''enabled''}"
  shows "\<exists>s. coerce_null (get_field a fld) = JStr s"
  using assms coerce_opt_val by (simp add: get_field_def)

lemma compareFn_string_fields:
  assumes "fld \<notin> {''price'', ''weight'', ''quantityLimit'', ''enabled''}"
  shows "compareFn tn fld dir a b =
           Inr (three_way dir (str_lt (string_key fld a) (string_key fld b))
                              (str_lt (string_key fld b) (string_key fld a)))"
proof -
  from string_fields [OF assms] obtain s t where
    s: "coerce_null (get_field a fld) = JStr s" and t: "coerce_null (get_field b fld) = JStr t"
    by blast
  show ?thesis
    unfolding compareFn_def
    by (simp add: compareValues_strings [OF s t] string_key_def s t)
qed

lemma compareFn_consistent: "consistent (compareFn tn fld dir)"
proof -
  consider (str) "fld \<notin> {''price'', ''weight'', ''quantityLimit'', ''enabled''}"
    | (price) "fld = ''price''" | (weight) "fld = ''weight''"
    | (limit) "fld = ''quantityLimit''" | (enabled) "fld = ''enabled''"
    by blast
  then show ?thesis
  proof cases
    case str
    show ?thesis
      by (rule consistent_by_key [where lt = str_lt and k = "string_key fld" and dir = dir])
        (simp_all add: compareFn_string_fields [OF str] str_lt_irrefl str_lt_total,
          erule (1) str_lt_trans)
  next
    case price
    show ?thesis
      by (rule consistent_by_key [where lt = "(<)" and k = price and dir = dir])
        (auto simp: price compareFn_def get_field_def compareValues_numbers)
  next
    case weight
    show ?thesis
      by (rule consistent_by_key [where lt = "(<)" and k = weight and dir = dir])
        (auto simp: weight compareFn_def get_field_def compareValues_numbers)
  next
    case limit
    show ?thesis
      by (rule consistent_by_key [where lt = "(<)" and k = quantityLimit and dir = dir])
        (auto simp: limit compareFn_def get_field_def compareValues_numbers)
  next
    case enabled
    show ?thesis
      by (rule consistent_by_key [where lt = "\<lambda>p q. \<not> p \<and> q" and k = item.enabled and dir = dir])
        (auto simp: enabled compareFn_def get_field_def compareValues_booleans)
  qed
qed

lemma same_kind:
  assumes "coerce_null (get_field a fld) = JStr s"
  shows "\<exists>t. coerce_null (get_field b fld) = JStr t"
proof (cases "fld \<in> {''price'', ''weight'', ''quantityLimit'', ''enabled''}")
  case True
  then consider "fld = ''price''" | "fld = ''weight''" | "fld = ''quantityLimit''" | "fld = ''enabled''"
    by blast
  then show ?thesis using assms by cases (simp_all add: get_field_def)
next
  case False
  then show ?thesis by (rule string_fields)
qed

lemma compareValues_Desc:
  "compareValues tn Desc u v = map_sum id uminus (compareValues tn Asc u v)"
proof -
  have tw: "\<And>p q. three_way Desc p q = - three_way Asc p q"
    by (simp add: three_way_def)
  have cv: "\<And>dir. compareValues tn dir u v =
      (case coerce_null u of
         JStr s \<Rightarrow> (case coerce_null v of
             JStr t \<Rightarrow> Inr (three_way dir (str_lt (toLowerCase s) (toLowerCase t))
                                          (str_lt (toLowerCase t) (toLowerCase s)))
           | _ \<Rightarrow> Inl TypeError)
       | w \<Rightarrow> Inr (three_way dir (js_less tn w (coerce_null v)) (js_less tn (coerce_null v) w)))"
    by (cases "coerce_null u"; cases "coerce_null v")
      (simp_all add: compareValues_def three_way_def)
  show ?thesis
    by (cases "coerce_null u"; cases "coerce_null v") (simp_all add: cv tw)
qed

subsection \<open>sortItems and filterItems on the store\<close>

lemma sortBy_compareFn:
  "\<exists>ys. sortBy (compareFn tn fld dir) xs = Inr ys
        \<and> mset ys = mset xs
        \<and> (\<forall>a. filter (tie (compareFn tn fld dir) a) ys = filter (tie (compareFn tn fld dir) a) xs)
        \<and> sorted_wrt (precedes (compareFn tn fld dir)) ys"
proof -
  obtain ys where ys: "sortBy (compareFn tn fld dir) xs = Inr ys"
    using sortBy_consistent [OF compareFn_consistent, of tn fld dir xs] by blast
  have "mset ys = mset xs" "sorted_wrt (precedes (compareFn tn fld dir)) ys"
    using sortBy_consistent [OF compareFn_consistent, of tn fld dir xs] ys by auto
  moreover have "filter (tie (compareFn tn fld dir) a) ys = filter (tie (compareFn tn fld dir) a) xs" for a
    using sortBy_consistent [OF compareFn_consistent, of tn fld dir xs a] ys by auto
  ultimately show ?thesis using ys by blast
qed

lemma sortItems_result:
  assumes "sortBy (compareFn tn fld (direction (update_sort fld cd (currentSort st)))) (viewOf st) = Inr ys"
  shows "sortItems tn fld cd st =
           Inr (st\<lparr> currentSort := update_sort fld cd (currentSort st),
                    heap := (heap st)(filteredItems st := ys) \<rparr>)"
  using assms by (simp add: sortItems_def viewOf_def Let_def)

lemma sortItems_total:
  "\<exists>st'. sortItems tn fld cd st = Inr st'
     \<and> currentSort st' = update_sort fld cd (currentSort st)
     \<and> sortBy (compareFn tn fld (direction (currentSort st'))) (viewOf st) = Inr (viewOf st')
     \<and> items st' = items st \<and> filteredItems st' = filteredItems st \<and> nextRef st' = nextRef st
     \<and> (\<forall>r. r \<noteq> filteredItems st \<longrightarrow> heap st' r = heap st r)"
proof -
  obtain ys where ys:
    "sortBy (compareFn tn fld (direction (update_sort fld cd (currentSort st)))) (viewOf st) = Inr ys"
    using sortBy_compareFn by blast
  show ?thesis
    using ys by (simp add: sortItems_result [OF ys] viewOf_def)
qed

lemma update_sort_False: "update_sort fld False cs = cs"
  by (simp add: update_sort_def)

lemma filterItems_total:
  "\<exists>st'. filterItems tn t st = Inr st'
     \<and> currentSort st' = currentSort st
     \<and> sortBy (compareFn tn (field (currentSort st)) (direction (currentSort st)))
          (if trim (toLowerCase t) = [] then itemsOf st
           else filter (matches (trim (toLowerCase t))) (itemsOf st)) = Inr (viewOf st')
     \<and> items st' = items st \<and> filteredItems st' = nextRef st \<and> nextRef st' = Suc (nextRef st)
     \<and> (\<forall>r. r \<noteq> nextRef st \<longrightarrow> heap st' r = heap st r)"
proof -
  define L where "L = (if trim (toLowerCase t) = [] then itemsOf st
           else filter (matches (trim (toLowerCase t))) (itemsOf st))"
  define st2 where "st2 = st\<lparr> heap := (heap st)(nextRef st := L), nextRef := Suc (nextRef st),
     filteredItems := nextRef st \<rparr>"
  have f: "filterItems tn t st = sortItems tn (field (currentSort st)) False st2"
    by (simp add: filterItems_def new_array_def Let_def L_def st2_def itemsOf_def)
  have v: "viewOf st2 = L" by (simp add: st2_def viewOf_def)
  from sortItems_total [of tn "field (currentSort st)" False st2]
  obtain st' where st': "sortItems tn (field (currentSort st)) False st2 = Inr st'"
    and cs: "currentSort st' = update_sort (field (currentSort st)) False (currentSort st2)"
    and so: "sortBy (compareFn tn (field (currentSort st)) (direction (currentSort st'))) (viewOf st2) = Inr (viewOf st')"
    and fr: "items st' = items st2" "filteredItems st' = filteredItems st2" "nextRef st' = nextRef st2"
    and hp: "\<forall>r. r \<noteq> filteredItems st2 \<longrightarrow> heap st' r = heap st2 r"
    by blast
  have cs': "currentSort st' = currentSort st" using cs by (simp add: update_sort_False st2_def)
  have "\<forall>r. r \<noteq> nextRef st \<longrightarrow> heap st' r = heap st r" using hp by (simp add: st2_def)
  then show ?thesis
    using f st' cs' so fr v by (simp add: L_def st2_def)
qed

lemma wf_constructor: "wf_store constructor"
  by (simp add: wf_store_def constructor_def)

lemma wf_set_items: "wf_store (set_items xs st)"
  by (simp add: wf_store_def set_items_def new_array_def)

lemma wf_loadItems: "wf_store (loadItems fetch st)"
  by (simp add: loadItems_def loadItems_try_def loadSampleData_def wf_set_items
      split: option.splits json.splits sum.splits)

lemma sortItems_frame:
  assumes "wf_store st"
  shows "\<exists>st'. sortItems tn fld cd st = Inr st' \<and> wf_store st' \<and> items st' = items st
           \<and> itemsOf st' = itemsOf st \<and> mset (viewOf st') = mset (viewOf st)"
proof -
  from sortItems_total [of tn fld cd st] obtain st' where st': "sortItems tn fld cd st = Inr st'"
    and so: "sortBy (compareFn tn fld (direction (currentSort st'))) (viewOf st) = Inr (viewOf st')"
    and fr: "items st' = items st" "filteredItems st' = filteredItems st" "nextRef st' = nextRef st"
    and hp: "\<forall>r. r \<noteq> filteredItems st \<longrightarrow> heap st' r = heap st r"
    by blast
  have "mset (viewOf st') = mset (viewOf st)"
    using sortBy_compareFn [of tn fld "direction (currentSort st')" "viewOf st"] so by auto
  moreover have "itemsOf st' = itemsOf st" using assms hp fr by (simp add: itemsOf_def wf_store_def)
  moreover have "wf_store st'" using assms fr by (simp add: wf_store_def)
  ultimately show ?thesis using st' fr by blast
qed

lemma filterItems_frame:
  assumes "wf_store st"
  shows "\<exists>st'. filterItems tn t st = Inr st' \<and> wf_store st' \<and> items st' = items st
           \<and> itemsOf st' = itemsOf st \<and> mset (viewOf st') \<subseteq># mset (itemsOf st)"
proof -
  from filterItems_total [of tn t st] obtain st' where st': "filterItems tn t st = Inr st'"
    and so: "sortBy (compareFn tn (field (currentSort st)) (direction (currentSort st)))
          (if trim (toLowerCase t) = [] then itemsOf st
           else filter (matches (trim (toLowerCase t))) (itemsOf st)) = Inr (viewOf st')"
    and fr: "items st' = items st" "filteredItems st' = nextRef st" "nextRef st' = Suc (nextRef st)"
    and hp: "\<forall>r. r \<noteq> nextRef st \<longrightarrow> heap st' r = heap st r"
    by blast
  have "mset (viewOf st') = mset (if trim (toLowerCase t) = [] then itemsOf st
           else filter (matches (trim (toLowerCase t))) (itemsOf st))"
    using sortBy_compareFn [of tn "field (currentSort st)" "direction (currentSort st)"
        "if trim (toLowerCase t) = [] then itemsOf st
           else filter (matches (trim (toLowerCase t))) (itemsOf st)"] so by auto
  then have "mset (viewOf st') \<subseteq># mset (itemsOf st)"
    by (simp split: if_splits)
  moreover have "itemsOf st' = itemsOf st" using assms hp fr by (simp add: itemsOf_def wf_store_def)
  moreover have "wf_store st'" using assms fr by (simp add: wf_store_def)
  ultimately show ?thesis using st' fr by blast
qed

lemma run_frame:
  "wf_store st \<Longrightarrow> \<exists>st'. run tn acts st = Inr st' \<and> wf_store st' \<and> items st' = items st \<and> itemsOf st' = itemsOf st"
proof (induction acts arbitrary: st)
  case Nil
  then show ?case by simp
next
  case (Cons a acts)
  have "\<exists>st1. perform tn a st = Inr st1 \<and> wf_store st1 \<and> items st1 = items st \<and> itemsOf st1 = itemsOf st"
  proof (cases a)
    case (FilterItems t)
    then show ?thesis using filterItems_frame [OF Cons.prems, of tn t] by auto
  next
    case (SortItems fld cd)
    then show ?thesis using sortItems_frame [OF Cons.prems, of tn fld cd] by auto
  qed
  then obtain st1 where st1: "perform tn a st = Inr st1" "wf_store st1" "items st1 = items st"
    "itemsOf st1 = itemsOf st" by blast
  from Cons.IH [OF st1(2)] obtain st' where "run tn acts st1 = Inr st'" "wf_store st'"
    "items st' = items st1" "itemsOf st' = itemsOf st1" by blast
  then show ?case using st1 by simp
qed

subsection \<open>The search term\<close>

lemma startsWith_iff: "startsWith s t = (\<exists>v. s = t @ v)"
  unfolding startsWith_def
  by (metis append_eq_conv_conj append_take_drop_id)

lemma includes_str_iff: "includes_str s t = occurs_in t s"
proof (induction s)
  case Nil
  show ?case by (auto simp: occurs_in_def)
next
  case (Cons c cs)
  have "occurs_in t (c # cs) = ((\<exists>v. c # cs = t @ v) \<or> occurs_in t cs)"
    unfolding occurs_in_def
  proof
    assume "\<exists>u v. c # cs = u @ t @ v"
    then obtain u v where uv: "c # cs = u @ t @ v" by blast
    show "(\<exists>v. c # cs = t @ v) \<or> (\<exists>u v. cs = u @ t @ v)"
    proof (cases u)
      case Nil
      then show ?thesis using uv by auto
    next
      case (Cons x u')
      then have "cs = u' @ t @ v" using uv by simp
      then show ?thesis by blast
    qed
  next
    assume "(\<exists>v. c # cs = t @ v) \<or> (\<exists>u v. cs = u @ t @ v)"
    then show "\<exists>u v. c # cs = u @ t @ v"
    proof
      assume "\<exists>v. c # cs = t @ v"
      then obtain v where "c # cs = [] @ t @ v" by auto
      then show ?thesis by blast
    next
      assume "\<exists>u v. cs = u @ t @ v"
      then obtain u v where "c # cs = (c # u) @ t @ v" by auto
      then show ?thesis by blast
    qed
  qed
  then show ?case using Cons.IH by (simp add: startsWith_iff)
qed

lemma isWhiteSpace_toLowerCase: "isWhiteSpace (toLowerCase_char c) = isWhiteSpace c"
  by (simp add: isWhiteSpace_def toLowerCase_char_def Let_def)

lemma trim_toLowerCase: "trim (toLowerCase t) = toLowerCase (trim t)"
proof -
  have comp: "isWhiteSpace \<circ> toLowerCase_char = isWhiteSpace"
    by (rule ext) (simp add: isWhiteSpace_toLowerCase)
  show ?thesis
    by (simp add: trim_def toLowerCase_def dropWhile_map rev_map comp)
qed

lemma trim_toLowerCase_empty: "(trim (toLowerCase t) = []) = (trim t = [])"
  by (simp add: trim_toLowerCase) (simp add: toLowerCase_def)

lemma matches_spec:
  assumes "trim t \<noteq> []"
  shows "matches (trim (toLowerCase t)) i = spec_matches (trim t) i"
proof -
  have ne: "toLowerCase (trim t) \<noteq> []" using assms by (simp add: toLowerCase_def)
  have empty: "\<not> occurs_in (toLowerCase (trim t)) []"
    using ne by (simp add: occurs_in_def)
  have guard: "\<And>s. (s \<noteq> [] \<and> occurs_in (toLowerCase (trim t)) (toLowerCase s))
      = occurs_in (toLowerCase (trim t)) (toLowerCase s)"
    using empty by (auto simp: toLowerCase_def)
  show ?thesis
    by (simp add: matches_def spec_matches_def contains_ci_def trim_toLowerCase
        includes_str_iff guard split: opt.splits)
qed

lemma filter_list_spec:
  "(if trim (toLowerCase t) = [] then xs else filter (matches (trim (toLowerCase t))) xs)
     = (if trim t = [] then xs else filter (spec_matches (trim t)) xs)"
proof (cases "trim t = []")
  case True
  then show ?thesis by (simp add: trim_toLowerCase_empty)
next
  case False
  then have "filter (matches (trim (toLowerCase t))) xs = filter (spec_matches (trim t)) xs"
    by (intro filter_cong refl) (rule matches_spec)
  then show ?thesis using False by (simp add: trim_toLowerCase_empty)
qed

subsection \<open>The stable sorted arrangement is unique\<close>

lemma tie_refl: "consistent c \<Longrightarrow> tie c a a"
  unfolding consistent_def by blast

lemma tie_sym: "consistent c \<Longrightarrow> tie c a b = tie c b a"
  unfolding consistent_def by blast

lemma stable_sorted_unique:
  assumes c: "consistent c"
  shows "sorted_wrt (precedes c) ys \<Longrightarrow> sorted_wrt (precedes c) zs \<Longrightarrow>
         (\<forall>a. filter (tie c a) ys = filter (tie c a) zs) \<Longrightarrow> ys = zs"
proof (induction ys arbitrary: zs)
  case Nil
  show ?case
  proof (cases zs)
    case Nil
    then show ?thesis by simp
  next
    case (Cons z zs')
    have "filter (tie c z) [] = filter (tie c z) zs" using Nil.prems(3) by blast
    then show ?thesis using Cons tie_refl [OF c, of z] by simp
  qed
next
  case (Cons y ys)
  have fy: "filter (tie c y) zs = y # filter (tie c y) ys"
    using Cons.prems(3) tie_refl [OF c, of y] by (metis filter.simps(2))
  then obtain z zs' where zs: "zs = z # zs'" by (cases zs) auto
  have fz: "filter (tie c z) (y # ys) = z # filter (tie c z) zs'"
    using Cons.prems(3) tie_refl [OF c, of z] zs by (metis filter.simps(2))
  have yz: "y = z"
  proof (cases "tie c y z")
    case True
    then show ?thesis using fy zs by simp
  next
    case False
    then have nzy: "\<not> tie c z y" using tie_sym [OF c] by blast
    have "y \<in> set (filter (tie c y) zs)" using fy by simp
    then have "y \<in> set zs'" using False zs by auto
    then have p1: "precedes c z y" using Cons.prems(2) zs by simp
    have "z \<in> set (filter (tie c z) (y # ys))" using fz by simp
    then have "z \<in> set ys" using nzy by auto
    then have p2: "precedes c y z" using Cons.prems(1) by simp
    from p1 p2 have "tie c y z" using c unfolding consistent_def by blast
    with False show ?thesis by simp
  qed
  have tails: "\<forall>a. filter (tie c a) ys = filter (tie c a) zs'"
  proof
    fix a
    have "filter (tie c a) (y # ys) = filter (tie c a) (y # zs')"
      using Cons.prems(3) zs yz by simp
    then show "filter (tie c a) ys = filter (tie c a) zs'"
      by (cases "tie c a y") simp_all
  qed
  have "ys = zs'"
    using Cons.IH [of zs'] Cons.prems(1,2) zs tails by simp
  then show ?case using zs yz by simp
qed

lemma sortBy_unique:
  assumes c: "consistent c"
    and so: "sorted_wrt (precedes c) zs"
    and st: "\<forall>a. filter (tie c a) zs = filter (tie c a) xs"
  shows "sortBy c xs = Inr zs"
proof -
  obtain ys where ys: "sortBy c xs = Inr ys"
    using sortBy_consistent [OF c, of xs] by blast
  have so': "sorted_wrt (precedes c) ys"
    using sortBy_consistent [OF c, of xs] ys by auto
  have st': "\<forall>a. filter (tie c a) ys = filter (tie c a) zs"
  proof
    fix a
    show "filter (tie c a) ys = filter (tie c a) zs"
      using sortBy_consistent [OF c, of xs a] ys st by auto
  qed
  from stable_sorted_unique [OF c so' so st'] ys show ?thesis by simp
qed

subsection \<open>Evaluation\<close>

lemma case_sum_ex: "(case x of Inl e \<Rightarrow> False | Inr s \<Rightarrow> P s) \<Longrightarrow> \<exists>s. x = Inr s \<and> P s"
  by (cases x) simp_all

lemma case_sum_ex2:
  "(case x of Inl e \<Rightarrow> False
    | Inr s \<Rightarrow> (case f s of Inl e \<Rightarrow> False | Inr s2 \<Rightarrow> P s s2))
   \<Longrightarrow> \<exists>s s2. x = Inr s \<and> f s = Inr s2 \<and> P s s2"
  by (cases x) (auto split: sum.splits)

lemma price_example_view: "map price (viewOf price_store) = [80, 267, 150]"
  by code_simp

lemma price_example_sorts:
  "case sortItems tn ''price'' True price_store of
     Inl err \<Rightarrow> False
   | Inr st1 \<Rightarrow>
       (case sortItems tn ''price'' True st1 of
          Inl err \<Rightarrow> False
        | Inr st2 \<Rightarrow>
            map price (viewOf st1) = [80, 150, 267] \<and> map price (viewOf st2) = [267, 150, 80])"
  by code_simp

lemma ex_Inr_combine:
  "\<exists>s. x = Inr s \<and> P s \<Longrightarrow> (case x of Inl e \<Rightarrow> False | Inr s \<Rightarrow> Q s)
   \<Longrightarrow> \<exists>s. x = Inr s \<and> P s \<and> Q s"
  by (cases x) auto

lemma restores_wf:
  assumes wf: "wf_store st"
  shows "restores tn t st"
proof -
  from filterItems_frame [OF wf, of tn t] obtain st1 where st1: "filterItems tn t st = Inr st1"
    and wf1: "wf_store st1" and it1: "itemsOf st1 = itemsOf st" by blast
  from filterItems_total [of tn t st] st1 have cs1: "currentSort st1 = currentSort st" by auto
  have e: "trim (toLowerCase []) = []" by (simp add: trim_def toLowerCase_def)
  from filterItems_total [of tn "[]" st1] obtain st2 where st2: "filterItems tn [] st1 = Inr st2"
    and cs2: "currentSort st2 = currentSort st1"
    and so2: "sortBy (compareFn tn (field (currentSort st1)) (direction (currentSort st1)))
         (itemsOf st1) = Inr (viewOf st2)"
    by (auto simp: e)
  from filterItems_frame [OF wf1, of tn "[]"] st2 have wf2: "wf_store st2"
    and it2: "itemsOf st2 = itemsOf st1" by auto
  from filterItems_total [of tn "[]" st2] obtain st3 where st3: "filterItems tn [] st2 = Inr st3"
    and so3: "sortBy (compareFn tn (field (currentSort st2)) (direction (currentSort st2)))
         (itemsOf st2) = Inr (viewOf st3)"
    by (auto simp: e)
  have v3: "viewOf st3 = viewOf st2" using so2 so3 cs2 it2 by simp
  have so: "sortBy (compareFn tn (field (currentSort st)) (direction (currentSort st))) (itemsOf st)
         = Inr (viewOf st2)" using so2 cs1 it1 by simp
  have ms: "mset (viewOf st2) = mset (itemsOf st)"
    using sortBy_compareFn [of tn "field (currentSort st)" "direction (currentSort st)" "itemsOf st"] so
    by auto
  show ?thesis
    unfolding restores_def using st1 st2 it1 it2 cs1 cs2 so ms st3 v3 by simp
qed

lemma mixed_catalog_mapped:
  "case mapEntries mixed_catalog of Inl err \<Rightarrow> False | Inr xs \<Rightarrow> length xs = 5"
  by code_simp

subsection \<open>The comparator on the fields\<close>

lemma compareValues_opt:
  "compareValues tn dir (opt_val u) (opt_val v) =
     compareValues tn dir (JStr (case u of Val s \<Rightarrow> s | _ \<Rightarrow> []))
                          (JStr (case v of Val s \<Rightarrow> s | _ \<Rightarrow> []))"
  by (cases u; cases v) (simp_all add: compareValues_def)

lemma compareFn_fields:
  "compareFn tn ''defname'' dir a b = compareValues tn dir (JStr (defname a)) (JStr (defname b))"
  "compareFn tn ''name'' dir a b = compareValues tn dir (JStr (name a)) (JStr (name b))"
  "compareFn tn ''category'' dir a b = compareValues tn dir (JStr (category a)) (JStr (category b))"
  "compareFn tn ''price'' dir a b = compareValues tn dir (JNum (price a)) (JNum (price b))"
  "compareFn tn ''weight'' dir a b = compareValues tn dir (JNum (weight a)) (JNum (weight b))"
  "compareFn tn ''quantityLimit'' dir a b =
     compareValues tn dir (JNum (quantityLimit a)) (JNum (quantityLimit b))"
  by (simp_all add: compareFn_def get_field_def)

lemma compareFn_opt_fields:
  "compareFn tn ''limitMode'' dir a b =
     compareValues tn dir (JStr (case limitMode a of Val s \<Rightarrow> s | _ \<Rightarrow> []))
                          (JStr (case limitMode b of Val s \<Rightarrow> s | _ \<Rightarrow> []))"
  "compareFn tn ''mod'' dir a b =
     compareValues tn dir (JStr (case mod_field a of Val s \<Rightarrow> s | _ \<Rightarrow> []))
                          (JStr (case mod_field b of Val s \<Rightarrow> s | _ \<Rightarrow> []))"
  "compareFn tn ''karmaType'' dir a b =
     compareValues tn dir (JStr (case karmaType a of Val s \<Rightarrow> s | _ \<Rightarrow> []))
                          (JStr (case karmaType b of Val s \<Rightarrow> s | _ \<Rightarrow> []))"
  by (simp_all add: compareFn_def get_field_def compareValues_opt)

lemma compareFn_Desc:
  "compareFn tn fld Desc a b = map_sum id uminus (compareFn tn fld Asc a b)"
  by (simp add: compareFn_def compareValues_Desc)

lemma str_lt_asym: "str_lt s t \<Longrightarrow> \<not> str_lt t s"
  using str_lt_trans str_lt_irrefl by blast

lemma precedes_price:
  "precedes (compareFn tn ''price'' dir) =
     (\<lambda>a b. if dir = Asc then price a \<le> price b else price b \<le> price a)"
  by (intro ext)
    (auto simp: precedes_def compareFn_fields compareValues_numbers three_way_def)

lemma precedes_name:
  "precedes (compareFn tn ''name'' dir) =
     (\<lambda>a b. if dir = Asc then \<not> str_lt (toLowerCase (name b)) (toLowerCase (name a))
            else \<not> str_lt (toLowerCase (name a)) (toLowerCase (name b)))"
  using str_lt_asym
  by (intro ext)
    (auto simp: precedes_def compareFn_fields
      compareValues_strings [where s = "name a" and t = "name b" for a b] three_way_def)

lemma sort_examples:
  "compareValues tn Asc (JStr ''apple'') (JStr ''Banana'') = Inr (- 1)"
  "compareValues tn Desc (JStr ''apple'') (JStr ''Banana'') = Inr 1"
  "compareValues tn Asc (JStr ''Core'') (JStr ''CORE'') = Inr 0"
  "compareValues tn Asc JNull (JStr ''a'') = Inr (- 1)"
  "compareValues tn Asc (JNum 80) (JNum 267) = Inr (- 1)"
  "compareValues tn Desc (JNum 80) (JNum 267) = Inr 1"
  by code_simp+

lemma sort_examples_lists:
  "sortBy (compareFn tn ''price'' Asc) sampleData
     = Inr [sampleData ! 2, sampleData ! 1, sampleData ! 0]"
  "sortBy (compareFn tn ''price'' Desc) [sampleData ! 2, sampleData ! 0, sampleData ! 1]
     = Inr sampleData"
  "sortBy (compareFn tn ''name'' Asc) sampleData
     = Inr [sampleData ! 1, sampleData ! 2, sampleData ! 0]"
  "sortBy (compareFn tn ''mod'' Asc) sampleData = Inr sampleData"
  "sortBy (compareFn tn ''mod'' Desc) sampleData = Inr sampleData"
  "sortBy (compareFn tn ''karmaType'' Asc) (karma_item # sampleData)
     = Inr (sampleData @ [karma_item])"
  "sortBy (compareFn tn ''karmaType'' Desc) (sampleData @ [karma_item])
     = Inr (karma_item # sampleData)"
  by code_simp+

section \<open>Properties\<close>

subsection \<open>Loading\<close>

text \<open>
  C1. Whatever the fetches return and whatever the store was, every record of
  \<^verbatim>\<open>this.items\<close> after \<open>loadItems\<close> is enabled and has a price above 0; a record with
  a price of 0 or less, or one that is disabled, is not in it.
\<close>

theorem loadItems_working_set:
  "(\<forall>r \<in> set (itemsOf (loadItems fetch st)). enabled r \<noteq> False \<and> 0 < price r)
   \<and> (\<forall>r. price r \<le> 0 \<or> enabled r = False \<longrightarrow> r \<notin> set (itemsOf (loadItems fetch st)))"
proof -
  have main: "\<forall>r \<in> set (itemsOf (loadItems fetch st)). enabled r \<and> 0 < price r"
    using sampleData_priced
    by (auto simp: itemsOf_loadItems list_all_iff split: option.splits json.splits sum.splits)
  then show ?thesis by fastforce
qed

theorem loadItems_working_set_witness:
  "map defname (itemsOf (loadItems (fetch_from ''StoreItems.json'' (JsonObject mixed_catalog)) constructor))
     = [''Kept'']
   \<and> list_all (\<lambda>r. enabled r \<and> 0 < price r)
       (itemsOf (loadItems (fetch_from ''StoreItems.json'' (JsonObject mixed_catalog)) constructor))"
  using loadItems_working_set [of "fetch_from ''StoreItems.json'' (JsonObject mixed_catalog)" constructor]
  by (simp add: itemsOf_loadItems paths_def fetch_from_def mixed_catalog_def empty_data_def
      or_string_def or_number_def)

text \<open>
  C5. When the loaded document has the entry \<open>(dn, d)\<close> at position \<open>k\<close>, the record
  mapped from it has the identifier \<open>dn\<close>, and a missing name becomes the identifier, a
  missing price, weight or quantity limit 0, a missing category "Misc", a missing enabled
  flag true; the working set is the mapped records that are enabled and priced. Loading
  \<^verbatim>\<open>{"TextBook": {"BasePrice":267,"Category":"Books"}}\<close> from any of the paths gives one
  record named "TextBook" with the price 267.
\<close>

theorem loadItems_defaults:
  "(fetchFirst fetch paths = Some (JsonObject es) \<and> mapEntries es = Inr xs
      \<and> k < length es \<and> es ! k = (dn, Some d) \<longrightarrow>
      itemsOf (loadItems fetch st) = filter (\<lambda>i. enabled i \<and> 0 < price i) xs
      \<and> defname (xs ! k) = dn
      \<and> (CustomName d = Undefined \<longrightarrow> name (xs ! k) = dn)
      \<and> (BasePrice d = Undefined \<longrightarrow> price (xs ! k) = 0)
      \<and> (Weight d = Undefined \<longrightarrow> weight (xs ! k) = 0)
      \<and> (QuantityLimit d = Undefined \<longrightarrow> quantityLimit (xs ! k) = 0)
      \<and> (Category d = Undefined \<longrightarrow> category (xs ! k) = ''Misc'')
      \<and> (Enabled d = Undefined \<longrightarrow> enabled (xs ! k)))
   \<and> (p \<in> set paths \<longrightarrow>
       (\<exists>r. itemsOf (loadItems (fetch_from p (JsonObject textbook_catalog)) st) = [r]
            \<and> name r = ''TextBook'' \<and> price r = 267))"
proof (intro conjI impI)
  assume h: "fetchFirst fetch paths = Some (JsonObject es) \<and> mapEntries es = Inr xs
      \<and> k < length es \<and> es ! k = (dn, Some d)"
  then have "mapEntry (dn, Some d) = Inr (xs ! k)"
    using mapEntries_nth [of es xs] by auto
  then have r: "xs ! k = \<lparr> defname = dn, name = or_string (CustomName d) dn,
      price = or_number (BasePrice d) 0, category = or_string (Category d) ''Misc'',
      weight = or_number (Weight d) 0, quantityLimit = or_number (QuantityLimit d) 0,
      limitMode = LimitMode d, mod_field = Mod d, enabled = (Enabled d \<noteq> Val False),
      karmaType = KarmaType d \<rparr>"
    by simp
  from h show "itemsOf (loadItems fetch st) = filter (\<lambda>i. enabled i \<and> 0 < price i) xs"
    by (simp add: itemsOf_loadItems)
  from r show "defname (xs ! k) = dn" by simp
  { assume "CustomName d = Undefined"
    with r show "name (xs ! k) = dn" by (auto simp: or_string_def) }
  { assume "BasePrice d = Undefined"
    with r show "price (xs ! k) = 0" by (auto simp: or_number_def) }
  { assume "Weight d = Undefined"
    with r show "weight (xs ! k) = 0" by (auto simp: or_number_def) }
  { assume "QuantityLimit d = Undefined"
    with r show "quantityLimit (xs ! k) = 0" by (auto simp: or_number_def) }
  { assume "Category d = Undefined"
    with r show "category (xs ! k) = ''Misc''" by (auto simp: or_string_def) }
  { assume "Enabled d = Undefined"
    with r show "enabled (xs ! k)" by auto }
next
  assume "p \<in> set paths"
  then show "\<exists>r. itemsOf (loadItems (fetch_from p (JsonObject textbook_catalog)) st) = [r]
            \<and> name r = ''TextBook'' \<and> price r = 267"
    by (simp add: textbook_example)
qed

theorem loadItems_defaults_witness:
  "(\<exists>xs. mapEntries mixed_catalog = Inr xs
      \<and> (mixed_catalog ! 2 = (''Unpriced'', Some empty_data)
      \<and> defname (xs ! 2) = ''Unpriced'' \<and> name (xs ! 2) = ''Unpriced'' \<and> price (xs ! 2) = 0
      \<and> weight (xs ! 2) = 0 \<and> quantityLimit (xs ! 2) = 0 \<and> category (xs ! 2) = ''Misc''
      \<and> enabled (xs ! 2)))
   \<and> (\<exists>r. itemsOf (loadItems (fetch_from ''data/StoreItems.json'' (JsonObject textbook_catalog))
               constructor) = [r]
         \<and> name r = ''TextBook'' \<and> price r = 267)"
proof -
  obtain xs where xs: "mapEntries mixed_catalog = Inr xs"
    using mixed_catalog_mapped by (cases "mapEntries mixed_catalog") simp_all
  note t = loadItems_defaults [of "fetch_from ''StoreItems.json'' (JsonObject mixed_catalog)"
      mixed_catalog xs 2 "''Unpriced''" empty_data constructor "''data/StoreItems.json''"]
  have h1: "fetchFirst (fetch_from ''StoreItems.json'' (JsonObject mixed_catalog)) paths
              = Some (JsonObject mixed_catalog)"
    by (simp add: paths_def fetch_from_def)
  have h2: "2 < length mixed_catalog" by (simp add: mixed_catalog_def)
  have h3: "mixed_catalog ! 2 = (''Unpriced'', Some empty_data)" by (simp add: mixed_catalog_def)
  have h4: "CustomName empty_data = Undefined" "BasePrice empty_data = Undefined"
    "Weight empty_data = Undefined" "QuantityLimit empty_data = Undefined"
    "Category empty_data = Undefined" "Enabled empty_data = Undefined"
    by (simp_all add: empty_data_def)
  have h5: "''data/StoreItems.json'' \<in> set paths" by (simp add: paths_def)
  have h: "fetchFirst (fetch_from ''StoreItems.json'' (JsonObject mixed_catalog)) paths
              = Some (JsonObject mixed_catalog) \<and> mapEntries mixed_catalog = Inr xs
           \<and> 2 < length mixed_catalog \<and> mixed_catalog ! 2 = (''Unpriced'', Some empty_data)"
    using h1 xs h2 h3 by (intro conjI)
  note c = t [THEN conjunct1, THEN mp, OF h]
  have d: "mixed_catalog ! 2 = (''Unpriced'', Some empty_data)
      \<and> defname (xs ! 2) = ''Unpriced'' \<and> name (xs ! 2) = ''Unpriced'' \<and> price (xs ! 2) = 0
      \<and> weight (xs ! 2) = 0 \<and> quantityLimit (xs ! 2) = 0 \<and> category (xs ! 2) = ''Misc''
      \<and> enabled (xs ! 2)"
    using c h3 by (simp only: h4 simp_thms)
  have ex: "\<exists>r. itemsOf (loadItems (fetch_from ''data/StoreItems.json'' (JsonObject textbook_catalog))
               constructor) = [r]
         \<and> name r = ''TextBook'' \<and> price r = 267"
    by (rule t [THEN conjunct2, THEN mp, OF h5])
  have "\<exists>xs. mapEntries mixed_catalog = Inr xs
      \<and> (mixed_catalog ! 2 = (''Unpriced'', Some empty_data)
      \<and> defname (xs ! 2) = ''Unpriced'' \<and> name (xs ! 2) = ''Unpriced'' \<and> price (xs ! 2) = 0
      \<and> weight (xs ! 2) = 0 \<and> quantityLimit (xs ! 2) = 0 \<and> category (xs ! 2) = ''Misc''
      \<and> enabled (xs ! 2))"
    by (rule exI [of _ xs]) (rule conjI [OF xs d])
  with ex show ?thesis by (intro conjI)
qed

text \<open>
  C6. When no path yields a parsed document, or the document is falsy, or one of its
  entries is \<^verbatim>\<open>null\<close>, the \<^verbatim>\<open>try\<close> block throws, and \<open>loadItems\<close> still returns a
  store: its working set and its view are the three sample records TextBook,
  MedicineHerbal and Pemmican.
\<close>

theorem loadItems_fallback:
  "((\<forall>p \<in> set paths. \<forall>d. fetch p \<noteq> Parsed d)
     \<or> fetchFirst fetch paths = Some JsonFalsy
     \<or> (\<exists>es dn. fetchFirst fetch paths = Some (JsonObject es) \<and> (dn, None) \<in> set es))
    \<longrightarrow>
    (\<exists>err. loadItems_try fetch st = Inl err)
    \<and> itemsOf (loadItems fetch st) = sampleData
    \<and> viewOf (loadItems fetch st) = sampleData
    \<and> map defname sampleData = [''TextBook'', ''MedicineHerbal'', ''Pemmican'']"
proof
  assume h: "(\<forall>p \<in> set paths. \<forall>d. fetch p \<noteq> Parsed d)
     \<or> fetchFirst fetch paths = Some JsonFalsy
     \<or> (\<exists>es dn. fetchFirst fetch paths = Some (JsonObject es) \<and> (dn, None) \<in> set es)"
  have failed: "\<exists>err. loadItems_try fetch st = Inl err"
    using h fetchFirst_none [of paths fetch] mapEntries_null
    by (fastforce simp: loadItems_try_def split: option.splits json.splits sum.splits)
  from failed have "loadItems fetch st = loadSampleData st"
    by (auto simp: loadItems_def)
  then have "itemsOf (loadItems fetch st) = sampleData" "viewOf (loadItems fetch st) = sampleData"
    by (simp_all add: loadSampleData_def itemsOf_set_items viewOf_set_items)
  moreover have "map defname sampleData = [''TextBook'', ''MedicineHerbal'', ''Pemmican'']"
    by (simp add: sampleData_def)
  ultimately show "(\<exists>err. loadItems_try fetch st = Inl err)
    \<and> itemsOf (loadItems fetch st) = sampleData
    \<and> viewOf (loadItems fetch st) = sampleData
    \<and> map defname sampleData = [''TextBook'', ''MedicineHerbal'', ''Pemmican'']"
    using failed by simp
qed

theorem loadItems_fallback_witness:
  "(\<exists>err. loadItems_try (\<lambda>p. if p = ''StoreItems.json'' then JsonThrows else FetchThrows) constructor = Inl err)
    \<and> itemsOf (loadItems (\<lambda>p. if p = ''StoreItems.json'' then JsonThrows else FetchThrows) constructor) = sampleData
    \<and> viewOf (loadItems (\<lambda>p. if p = ''StoreItems.json'' then JsonThrows else FetchThrows) constructor) = sampleData
    \<and> length sampleData = 3"
  using loadItems_fallback [of "\<lambda>p. if p = ''StoreItems.json'' then JsonThrows else FetchThrows" constructor]
  by (simp add: paths_def sampleData_def)

subsection \<open>escapeHtml\<close>

text \<open>
  C9. On a string, \<open>escapeHtml\<close> returns the string with each of the characters
  \<^verbatim>\<open>&\<close>, \<^verbatim>\<open><\<close>, \<^verbatim>\<open>>\<close>, \<^verbatim>\<open>"\<close> and \<^verbatim>\<open>'\<close> replaced by its entity: the result has
  none of \<^verbatim>\<open><\<close>, \<^verbatim>\<open>>\<close>, \<^verbatim>\<open>"\<close>, \<^verbatim>\<open>'\<close>, and each \<^verbatim>\<open>&\<close> in it starts one of the five
  entities.
\<close>

theorem escapeHtml_entities:
  "(case escapeHtml (JStr s) of
      JStr r \<Rightarrow>
        r = concat (map entity s)
        \<and> CHR ''<'' \<notin> set r \<and> CHR ''>'' \<notin> set r \<and> CHR 0x22 \<notin> set r \<and> CHR 0x27 \<notin> set r
        \<and> ampersands_ok r
    | _ \<Rightarrow> False)"
proof -
  have "x \<notin> {CHR ''<'', CHR ''>'', CHR 0x22, CHR 0x27}" if "x \<in> set (concat (map entity s))" for x
    using that entity_chars by auto
  then have "CHR ''<'' \<notin> set (concat (map entity s))" "CHR ''>'' \<notin> set (concat (map entity s))"
    "CHR 0x22 \<notin> set (concat (map entity s))" "CHR 0x27 \<notin> set (concat (map entity s))"
    by blast+
  then show ?thesis
    unfolding escape_one_pass using ampersands_ok_concat [of s] by simp
qed

theorem escapeHtml_entities_witness:
  "escapeHtml (JStr ''<b>Tom & Jerry's</b>'') = JStr ''&lt;b&gt;Tom &amp; Jerry&#039;s&lt;/b&gt;''
   \<and> ampersands_ok ''&lt;b&gt;Tom &amp; Jerry&#039;s&lt;/b&gt;''"
  using escapeHtml_entities [of "''<b>Tom & Jerry's</b>''"]
  by (simp add: replaceAll_def entity_def)


subsection \<open>The comparator never throws\<close>

text \<open>
  C10. The records have the types of the record type: name, category and defname are
  strings, price, weight and quantityLimit numbers, mod, limitMode and karmaType strings
  or null or undefined. For every field name, when the coerced value of one record is a
  string, so is the coerced value of any other record; the comparator returns a number
  on every pair, and so do not throw: \<^verbatim>\<open>sort\<close> on any list of such records, \<open>sortItems\<close> and
  \<open>filterItems\<close> on any store.
\<close>

theorem sortItems_never_throws:
  "((\<exists>s. coerce_null (get_field a fld) = JStr s) \<longrightarrow> (\<exists>t. coerce_null (get_field b fld) = JStr t))
   \<and> (\<exists>r. compareFn tn fld dir a b = Inr r)
   \<and> (\<exists>ys. sortBy (compareFn tn fld dir) xs = Inr ys)
   \<and> (\<exists>st'. sortItems tn fld cd st = Inr st')
   \<and> (\<exists>st'. filterItems tn t st = Inr st')"
proof (intro conjI impI)
  assume "\<exists>s. coerce_null (get_field a fld) = JStr s"
  then show "\<exists>t. coerce_null (get_field b fld) = JStr t" using same_kind by blast
next
  show "\<exists>r. compareFn tn fld dir a b = Inr r"
    using compareFn_consistent [of tn fld dir] unfolding consistent_def by blast
next
  show "\<exists>ys. sortBy (compareFn tn fld dir) xs = Inr ys"
    using sortBy_compareFn [of tn fld dir xs] by blast
next
  show "\<exists>st'. sortItems tn fld cd st = Inr st'"
    using sortItems_total [of tn fld cd st] by blast
next
  show "\<exists>st'. filterItems tn t st = Inr st'"
    using filterItems_total [of tn t st] by blast
qed

theorem sortItems_never_throws_witness:
  "(\<exists>s. coerce_null (get_field karma_item ''karmaType'') = JStr s)
   \<and> (\<exists>t. coerce_null (get_field (hd sampleData) ''karmaType'') = JStr t)
   \<and> (\<exists>r. compareFn no_numbers ''karmaType'' Asc karma_item (hd sampleData) = Inr r)
   \<and> (\<exists>ys. sortBy (compareFn no_numbers ''karmaType'' Asc) (karma_item # sampleData) = Inr ys)"
proof -
  note t = sortItems_never_throws [of karma_item "''karmaType''" "hd sampleData" no_numbers Asc
      "karma_item # sampleData" True constructor "[]"]
  have h: "\<exists>s. coerce_null (get_field karma_item ''karmaType'') = JStr s"
    by (simp add: get_field_def karma_item_def)
  have c1: "\<exists>t. coerce_null (get_field (hd sampleData) ''karmaType'') = JStr t"
    using t h by (elim conjE impE)
  have c2: "\<exists>r. compareFn no_numbers ''karmaType'' Asc karma_item (hd sampleData) = Inr r"
    using t by (elim conjE)
  have c3: "\<exists>ys. sortBy (compareFn no_numbers ''karmaType'' Asc) (karma_item # sampleData) = Inr ys"
    using t by (elim conjE)
  show ?thesis using h c1 c2 c3 by (intro conjI)
qed

subsection \<open>Filtering\<close>

text \<open>
  C2. \<open>filterItems\<close> returns, and leaves the sort field and direction as they were. When
  the trimmed term is empty the view is the working set, otherwise it is the records of
  the working set in which the trimmed term occurs, whatever the case, in the name, the
  category, the mod (a record without one does not match by it) or the identifier; in
  both cases sorted again by the current field and direction.
\<close>

theorem filterItems_view:
  "\<exists>st'. filterItems tn t st = Inr st'
     \<and> currentSort st' = currentSort st
     \<and> sortBy (compareFn tn (field (currentSort st)) (direction (currentSort st)))
          (if trim t = [] then itemsOf st else filter (spec_matches (trim t)) (itemsOf st))
         = Inr (viewOf st')
     \<and> mset (viewOf st')
         = mset (if trim t = [] then itemsOf st else filter (spec_matches (trim t)) (itemsOf st))
     \<and> sorted_wrt (precedes (compareFn tn (field (currentSort st)) (direction (currentSort st))))
          (viewOf st')"
proof -
  let ?c = "compareFn tn (field (currentSort st)) (direction (currentSort st))"
  let ?L = "if trim t = [] then itemsOf st else filter (spec_matches (trim t)) (itemsOf st)"
  from filterItems_total [of tn t st] obtain st' where st': "filterItems tn t st = Inr st'"
    and cs: "currentSort st' = currentSort st"
    and so: "sortBy ?c (if trim (toLowerCase t) = [] then itemsOf st
           else filter (matches (trim (toLowerCase t))) (itemsOf st)) = Inr (viewOf st')"
    by blast
  from so have so': "sortBy ?c ?L = Inr (viewOf st')"
    by (simp only: filter_list_spec)
  from sortBy_compareFn [of tn "field (currentSort st)" "direction (currentSort st)" ?L] so'
  have "mset (viewOf st') = mset ?L" "sorted_wrt (precedes ?c) (viewOf st')"
    by auto
  with st' cs so' show ?thesis by blast
qed

theorem filterItems_view_witness:
  "\<exists>st'. filterItems no_numbers ''  MED '' (loadSampleData constructor) = Inr st'
     \<and> currentSort st' = \<lparr> field = ''name'', direction = Asc \<rparr>
     \<and> map defname (viewOf st') = [''MedicineHerbal'']"
proof -
  from filterItems_view [of no_numbers "''  MED ''" "loadSampleData constructor"]
  obtain st' where st': "filterItems no_numbers ''  MED '' (loadSampleData constructor) = Inr st'"
    and cs: "currentSort st' = currentSort (loadSampleData constructor)"
    by blast
  have "case filterItems no_numbers ''  MED '' (loadSampleData constructor) of
          Inr st1 \<Rightarrow> map defname (viewOf st1) = [''MedicineHerbal''] | Inl err \<Rightarrow> False"
    by code_simp
  then have v: "map defname (viewOf st') = [''MedicineHerbal'']"
    by (simp only: st' sum.case)
  have "currentSort (loadSampleData constructor) = \<lparr> field = ''name'', direction = Asc \<rparr>"
    by (simp add: loadSampleData_def set_items_def new_array_def constructor_def)
  with st' cs v show ?thesis by simp
qed

text \<open>
  C8. On a store whose two arrays are distinct, and so on every store reached from a
  loaded one by calls of \<open>filterItems\<close> and \<open>sortItems\<close>: after \<open>filterItems\<close> with any
  term, \<open>filterItems\<close> with the empty term gives a view with the records of the whole
  working set, in the current sort order; doing it once more changes nothing.
\<close>

theorem filter_empty_restores:
  "(wf_store st \<longrightarrow> restores tn t st)
   \<and> (\<exists>st'. run tn acts (loadItems fetch st0) = Inr st' \<and> restores tn t st')"
proof
  show "wf_store st \<longrightarrow> restores tn t st" by (simp add: restores_wf)
next
  from run_frame [OF wf_loadItems, of tn acts fetch st0]
  obtain st' where "run tn acts (loadItems fetch st0) = Inr st'" "wf_store st'" by blast
  then show "\<exists>st'. run tn acts (loadItems fetch st0) = Inr st' \<and> restores tn t st'"
    using restores_wf by blast
qed

theorem filter_empty_restores_witness:
  "wf_store (loadSampleData constructor)
   \<and> restores no_numbers ''zzz'' (loadSampleData constructor)
   \<and> (\<exists>st1. filterItems no_numbers ''zzz'' (loadSampleData constructor) = Inr st1
        \<and> (\<exists>st2. filterItems no_numbers [] st1 = Inr st2
           \<and> viewOf st1 = []
           \<and> map name (itemsOf st2) = [''Textbook'', ''Herbal Medicine'', ''Pemmican'']
           \<and> map name (viewOf st2) = [''Herbal Medicine'', ''Pemmican'', ''Textbook'']))"
proof -
  have wf: "wf_store (loadSampleData constructor)"
    by (simp add: loadSampleData_def wf_set_items)
  have r: "restores no_numbers ''zzz'' (loadSampleData constructor)"
    using filter_empty_restores [of "loadSampleData constructor" no_numbers "''zzz''" "[]"
        "\<lambda>p. NotOk" constructor] wf
    by (elim conjE impE)
  have e: "case filterItems no_numbers ''zzz'' (loadSampleData constructor) of
          Inl err \<Rightarrow> False
        | Inr st1 \<Rightarrow>
            (case filterItems no_numbers [] st1 of
               Inl err \<Rightarrow> False
             | Inr st2 \<Rightarrow> viewOf st1 = []
                 \<and> map name (itemsOf st2) = [''Textbook'', ''Herbal Medicine'', ''Pemmican'']
                 \<and> map name (viewOf st2) = [''Herbal Medicine'', ''Pemmican'', ''Textbook''])"
    by code_simp
  have x: "\<exists>st1 st2. filterItems no_numbers ''zzz'' (loadSampleData constructor) = Inr st1
        \<and> filterItems no_numbers [] st1 = Inr st2
           \<and> viewOf st1 = []
           \<and> map name (itemsOf st2) = [''Textbook'', ''Herbal Medicine'', ''Pemmican'']
           \<and> map name (viewOf st2) = [''Herbal Medicine'', ''Pemmican'', ''Textbook'']"
    by (rule case_sum_ex2 [where f = "filterItems no_numbers []"
          and P = "\<lambda>st1 st2. viewOf st1 = []
                 \<and> map name (itemsOf st2) = [''Textbook'', ''Herbal Medicine'', ''Pemmican'']
                 \<and> map name (viewOf st2) = [''Herbal Medicine'', ''Pemmican'', ''Textbook'']",
          OF e])
  then have x': "\<exists>st1. filterItems no_numbers ''zzz'' (loadSampleData constructor) = Inr st1
        \<and> (\<exists>st2. filterItems no_numbers [] st1 = Inr st2
           \<and> viewOf st1 = []
           \<and> map name (itemsOf st2) = [''Textbook'', ''Herbal Medicine'', ''Pemmican'']
           \<and> map name (viewOf st2) = [''Herbal Medicine'', ''Pemmican'', ''Textbook''])"
    by (elim exE conjE, intro exI conjI)
  from wf r x' show ?thesis by (intro conjI)
qed

subsection \<open>Sorting\<close>

text \<open>
  C3. The comparator treats null and undefined as the empty string, compares two strings
  in lower case and two numbers as numbers, and in descending direction returns the
  negated result. On two records it compares the values of the field passed: the
  strings of defname, name and category, the numbers of price, weight and quantityLimit,
  and for limitMode, mod and karmaType the string or, when it is null or missing, the
  empty string; in the direction passed. \<^verbatim>\<open>sort\<close> with it does not throw; the result has
  the same records, is ordered by the comparator and leaves tied records in the order
  they had: it is the only such arrangement. By price the result ascends or descends
  in the prices, by name in the names in lower case. \<open>sortItems\<close> puts that
  arrangement of the view in the view. On the sample records: "apple" comes before
  "Banana", "Core" ties with "CORE", null comes before "a", 80 before 267, and the
  reverse when descending; by price they go 80, 150, 267 ascending and 267, 150, 80
  descending; by mod, which ties them all, they stay as they were in both directions;
  by karma type a record with one goes last ascending and first descending.
\<close>

theorem sort_comparator:
  "compareValues tn dir JUndefined v = compareValues tn dir (JStr []) v
   \<and> compareValues tn dir JNull v = compareValues tn dir (JStr []) v
   \<and> compareValues tn dir u JUndefined = compareValues tn dir u (JStr [])
   \<and> compareValues tn dir u JNull = compareValues tn dir u (JStr [])
   \<and> compareValues tn dir (JStr s) (JStr t) =
       Inr (if str_lt (toLowerCase s) (toLowerCase t) then (if dir = Asc then - 1 else 1)
            else if str_lt (toLowerCase t) (toLowerCase s) then (if dir = Asc then 1 else - 1)
            else 0)
   \<and> (toLowerCase s = toLowerCase t \<longrightarrow> compareValues tn dir (JStr s) (JStr t) = Inr 0)
   \<and> compareValues tn dir (JNum x) (JNum y) =
       Inr (if x < y then (if dir = Asc then - 1 else 1)
            else if y < x then (if dir = Asc then 1 else - 1)
            else 0)
   \<and> compareValues tn Desc u v = map_sum id uminus (compareValues tn Asc u v)
   \<and> (\<exists>ys. sortBy (compareFn tn fld dir) xs = Inr ys
         \<and> mset ys = mset xs
         \<and> sorted_wrt (precedes (compareFn tn fld dir)) ys
         \<and> (\<forall>a. filter (tie (compareFn tn fld dir) a) ys = filter (tie (compareFn tn fld dir) a) xs)
         \<and> (\<forall>zs. sorted_wrt (precedes (compareFn tn fld dir)) zs
                \<and> (\<forall>a. filter (tie (compareFn tn fld dir) a) zs
                        = filter (tie (compareFn tn fld dir) a) xs)
                \<longrightarrow> zs = ys))
   \<and> (\<exists>st'. sortItems tn fld cd st = Inr st'
         \<and> sortBy (compareFn tn fld (direction (currentSort st'))) (viewOf st) = Inr (viewOf st'))
   \<and> compareFn tn ''defname'' dir a b = compareValues tn dir (JStr (defname a)) (JStr (defname b))
   \<and> compareFn tn ''name'' dir a b = compareValues tn dir (JStr (name a)) (JStr (name b))
   \<and> compareFn tn ''category'' dir a b
       = compareValues tn dir (JStr (category a)) (JStr (category b))
   \<and> compareFn tn ''price'' dir a b = compareValues tn dir (JNum (price a)) (JNum (price b))
   \<and> compareFn tn ''weight'' dir a b = compareValues tn dir (JNum (weight a)) (JNum (weight b))
   \<and> compareFn tn ''quantityLimit'' dir a b
       = compareValues tn dir (JNum (quantityLimit a)) (JNum (quantityLimit b))
   \<and> compareFn tn ''limitMode'' dir a b
       = compareValues tn dir (JStr (case limitMode a of Val s \<Rightarrow> s | _ \<Rightarrow> []))
                              (JStr (case limitMode b of Val s \<Rightarrow> s | _ \<Rightarrow> []))
   \<and> compareFn tn ''mod'' dir a b
       = compareValues tn dir (JStr (case mod_field a of Val s \<Rightarrow> s | _ \<Rightarrow> []))
                              (JStr (case mod_field b of Val s \<Rightarrow> s | _ \<Rightarrow> []))
   \<and> compareFn tn ''karmaType'' dir a b
       = compareValues tn dir (JStr (case karmaType a of Val s \<Rightarrow> s | _ \<Rightarrow> []))
                              (JStr (case karmaType b of Val s \<Rightarrow> s | _ \<Rightarrow> []))
   \<and> compareFn tn fld Desc a b = map_sum id uminus (compareFn tn fld Asc a b)
   \<and> (\<exists>ys. sortBy (compareFn tn ''price'' dir) xs = Inr ys \<and> mset ys = mset xs
         \<and> sorted_wrt (\<lambda>a b. if dir = Asc then price a \<le> price b else price b \<le> price a) ys)
   \<and> (\<exists>ys. sortBy (compareFn tn ''name'' dir) xs = Inr ys \<and> mset ys = mset xs
         \<and> sorted_wrt (\<lambda>a b. if dir = Asc
                                then \<not> str_lt (toLowerCase (name b)) (toLowerCase (name a))
                                else \<not> str_lt (toLowerCase (name a)) (toLowerCase (name b))) ys)
   \<and> compareValues tn Asc (JStr ''apple'') (JStr ''Banana'') = Inr (- 1)
   \<and> compareValues tn Desc (JStr ''apple'') (JStr ''Banana'') = Inr 1
   \<and> compareValues tn Asc (JStr ''Core'') (JStr ''CORE'') = Inr 0
   \<and> compareValues tn Asc JNull (JStr ''a'') = Inr (- 1)
   \<and> compareValues tn Asc (JNum 80) (JNum 267) = Inr (- 1)
   \<and> compareValues tn Desc (JNum 80) (JNum 267) = Inr 1
   \<and> sortBy (compareFn tn ''price'' Asc) sampleData
       = Inr [sampleData ! 2, sampleData ! 1, sampleData ! 0]
   \<and> sortBy (compareFn tn ''price'' Desc) [sampleData ! 2, sampleData ! 0, sampleData ! 1]
       = Inr sampleData
   \<and> sortBy (compareFn tn ''name'' Asc) sampleData
       = Inr [sampleData ! 1, sampleData ! 2, sampleData ! 0]
   \<and> sortBy (compareFn tn ''mod'' Asc) sampleData = Inr sampleData
   \<and> sortBy (compareFn tn ''mod'' Desc) sampleData = Inr sampleData
   \<and> sortBy (compareFn tn ''karmaType'' Asc) (karma_item # sampleData)
       = Inr (sampleData @ [karma_item])
   \<and> sortBy (compareFn tn ''karmaType'' Desc) (sampleData @ [karma_item])
       = Inr (karma_item # sampleData)"
proof -
  have nulls: "compareValues tn dir JUndefined v = compareValues tn dir (JStr []) v"
    "compareValues tn dir JNull v = compareValues tn dir (JStr []) v"
    "compareValues tn dir u JUndefined = compareValues tn dir u (JStr [])"
    "compareValues tn dir u JNull = compareValues tn dir u (JStr [])"
    by (simp_all add: compareValues_def)
  have strs: "compareValues tn dir (JStr s) (JStr t) =
       Inr (if str_lt (toLowerCase s) (toLowerCase t) then (if dir = Asc then - 1 else 1)
            else if str_lt (toLowerCase t) (toLowerCase s) then (if dir = Asc then 1 else - 1)
            else 0)"
    using compareValues_strings [of "JStr s" s "JStr t" t tn dir] by (simp add: three_way_def)
  have ci: "toLowerCase s = toLowerCase t \<longrightarrow> compareValues tn dir (JStr s) (JStr t) = Inr 0"
    using strs by (simp add: str_lt_irrefl)
  have nums: "compareValues tn dir (JNum x) (JNum y) =
       Inr (if x < y then (if dir = Asc then - 1 else 1)
            else if y < x then (if dir = Asc then 1 else - 1)
            else 0)"
    by (simp add: compareValues_numbers three_way_def)
  have rev: "compareValues tn Desc u v = map_sum id uminus (compareValues tn Asc u v)"
    by (rule compareValues_Desc)
  let ?c = "compareFn tn fld dir"
  from sortBy_compareFn [of tn fld dir xs] obtain ys where ys: "sortBy ?c xs = Inr ys"
    and ms: "mset ys = mset xs"
    and st: "\<forall>a. filter (tie ?c a) ys = filter (tie ?c a) xs"
    and so: "sorted_wrt (precedes ?c) ys"
    by blast
  have un: "\<forall>zs. sorted_wrt (precedes ?c) zs \<and> (\<forall>a. filter (tie ?c a) zs = filter (tie ?c a) xs)
                \<longrightarrow> zs = ys"
  proof (intro allI impI)
    fix zs
    assume h: "sorted_wrt (precedes ?c) zs \<and> (\<forall>a. filter (tie ?c a) zs = filter (tie ?c a) xs)"
    then have "sortBy ?c xs = Inr zs"
      using sortBy_unique [OF compareFn_consistent, of tn fld dir zs xs] by blast
    with ys show "zs = ys" by simp
  qed
  have sorting: "\<exists>ys. sortBy ?c xs = Inr ys
         \<and> mset ys = mset xs
         \<and> sorted_wrt (precedes ?c) ys
         \<and> (\<forall>a. filter (tie ?c a) ys = filter (tie ?c a) xs)
         \<and> (\<forall>zs. sorted_wrt (precedes ?c) zs
                \<and> (\<forall>a. filter (tie ?c a) zs = filter (tie ?c a) xs)
                \<longrightarrow> zs = ys)"
    using ys ms so st un by blast
  have store: "\<exists>st'. sortItems tn fld cd st = Inr st'
         \<and> sortBy (compareFn tn fld (direction (currentSort st'))) (viewOf st) = Inr (viewOf st')"
    using sortItems_total [of tn fld cd st] by blast
  have by_price: "\<exists>ys. sortBy (compareFn tn ''price'' dir) xs = Inr ys \<and> mset ys = mset xs
         \<and> sorted_wrt (\<lambda>a b. if dir = Asc then price a \<le> price b else price b \<le> price a) ys"
    using sortBy_compareFn [of tn "''price''" dir xs] by (auto simp only: precedes_price)
  have by_name: "\<exists>ys. sortBy (compareFn tn ''name'' dir) xs = Inr ys \<and> mset ys = mset xs
         \<and> sorted_wrt (\<lambda>a b. if dir = Asc
                                then \<not> str_lt (toLowerCase (name b)) (toLowerCase (name a))
                                else \<not> str_lt (toLowerCase (name a)) (toLowerCase (name b))) ys"
    using sortBy_compareFn [of tn "''name''" dir xs] by (auto simp only: precedes_name)
  show ?thesis
    using nulls strs ci nums rev sorting store
      compareFn_fields [of tn dir a b] compareFn_opt_fields [of tn dir a b]
      compareFn_Desc [of tn fld a b] by_price by_name
      sort_examples [of tn] sort_examples_lists [of tn]
    by (intro conjI)
qed

theorem sort_comparator_witness:
  "compareValues no_numbers Asc (JStr ''Core'') (JStr ''CORE'') = Inr 0
   \<and> compareValues no_numbers Asc JNull (JStr ''Core'') = Inr (- 1)
   \<and> compareValues no_numbers Asc (JNum 150) (JNum 80) = Inr 1
   \<and> compareValues no_numbers Desc (JNum 150) (JNum 80) = Inr (- 1)
   \<and> compareFn no_numbers ''karmaType'' Asc (hd sampleData) karma_item = Inr (- 1)
   \<and> compareFn no_numbers ''karmaType'' Desc (hd sampleData) karma_item = Inr 1
   \<and> (\<exists>ys. sortBy (compareFn no_numbers ''mod'' Desc) sampleData = Inr ys
         \<and> map defname ys = [''TextBook'', ''MedicineHerbal'', ''Pemmican''])
   \<and> (\<exists>ys. sortBy (compareFn no_numbers ''category'' Asc) sampleData = Inr ys
         \<and> map category ys = [''Books'', ''Food'', ''Medical''])
   \<and> (\<exists>ys. sortBy (compareFn no_numbers ''price'' Desc) sampleData = Inr ys
         \<and> map price ys = [267, 150, 80])"
proof -
  note inst = sort_comparator [where tn = no_numbers and dir = Asc and s = "''Core''"
      and t = "''CORE''" and fld = "''mod''" and xs = sampleData and cd = True
      and st = constructor and u = JNull and v = JNull and x = 150 and y = 80
      and a = "hd sampleData" and b = karma_item]
  have lc: "toLowerCase ''Core'' = toLowerCase ''CORE''" by code_simp
  have c1: "compareValues no_numbers Asc (JStr ''Core'') (JStr ''CORE'') = Inr 0"
    using inst lc by (elim conjE impE)
  have c2: "compareValues no_numbers Asc JNull (JStr ''Core'') = Inr (- 1)" by code_simp
  have c3: "compareValues no_numbers Asc (JNum 150) (JNum 80) = Inr 1" by code_simp
  have c4: "compareValues no_numbers Desc (JNum 150) (JNum 80) = Inr (- 1)" by code_simp
  have c5: "compareFn no_numbers ''karmaType'' Asc (hd sampleData) karma_item = Inr (- 1)"
    by code_simp
  have c6: "compareFn no_numbers ''karmaType'' Desc (hd sampleData) karma_item = Inr 1"
    by code_simp
  have c7: "\<exists>ys. sortBy (compareFn no_numbers ''mod'' Desc) sampleData = Inr ys
         \<and> map defname ys = [''TextBook'', ''MedicineHerbal'', ''Pemmican'']"
    by (rule case_sum_ex) code_simp
  have c8: "\<exists>ys. sortBy (compareFn no_numbers ''category'' Asc) sampleData = Inr ys
         \<and> map category ys = [''Books'', ''Food'', ''Medical'']"
    by (rule case_sum_ex) code_simp
  have c9: "\<exists>ys. sortBy (compareFn no_numbers ''price'' Desc) sampleData = Inr ys
         \<and> map price ys = [267, 150, 80]"
    by (rule case_sum_ex) code_simp
  show ?thesis using c1 c2 c3 c4 c5 c6 c7 c8 c9 by (intro conjI)
qed

text \<open>
  C4, as amended. \<open>sortItems\<close> returns. With \<open>changeDirection\<close> and the current field,
  the direction flips; with \<open>changeDirection\<close> and another field, the state becomes that
  field, ascending; without \<open>changeDirection\<close> the state stays. The view is then sorted
  by the field passed, in the direction of the new state. So two calls with
  \<open>changeDirection\<close> on a field that was not the current one sort ascending, then
  descending: from the state (name, ascending) and the prices 80, 267, 150, sorting by
  price twice gives 80, 150, 267 and then 267, 150, 80.
\<close>

theorem sortItems_state:
  "(\<exists>st'. sortItems tn fld cd st = Inr st'
       \<and> (cd \<and> field (currentSort st) = fld \<longrightarrow>
            currentSort st' = \<lparr> field = fld, direction = flip (direction (currentSort st)) \<rparr>)
       \<and> (cd \<and> field (currentSort st) \<noteq> fld \<longrightarrow>
            currentSort st' = \<lparr> field = fld, direction = Asc \<rparr>)
       \<and> (\<not> cd \<longrightarrow> currentSort st' = currentSort st)
       \<and> sortBy (compareFn tn fld (direction (currentSort st'))) (viewOf st) = Inr (viewOf st'))
   \<and> flip Asc = Desc \<and> flip Desc = Asc
   \<and> (field (currentSort st) \<noteq> fld \<longrightarrow>
        (\<exists>st1 st2. sortItems tn fld True st = Inr st1 \<and> sortItems tn fld True st1 = Inr st2
           \<and> currentSort st1 = \<lparr> field = fld, direction = Asc \<rparr>
           \<and> currentSort st2 = \<lparr> field = fld, direction = Desc \<rparr>
           \<and> sortBy (compareFn tn fld Asc) (viewOf st) = Inr (viewOf st1)
           \<and> sortBy (compareFn tn fld Desc) (viewOf st1) = Inr (viewOf st2)))
   \<and> field (currentSort price_store) = ''name''
   \<and> map price (viewOf price_store) = [80, 267, 150]
   \<and> (\<exists>st1 st2. sortItems tn ''price'' True price_store = Inr st1
          \<and> sortItems tn ''price'' True st1 = Inr st2
          \<and> map price (viewOf st1) = [80, 150, 267]
          \<and> map price (viewOf st2) = [267, 150, 80])"
proof -
  have one: "\<exists>st'. sortItems tn fld cd st = Inr st'
       \<and> (cd \<and> field (currentSort st) = fld \<longrightarrow>
            currentSort st' = \<lparr> field = fld, direction = flip (direction (currentSort st)) \<rparr>)
       \<and> (cd \<and> field (currentSort st) \<noteq> fld \<longrightarrow>
            currentSort st' = \<lparr> field = fld, direction = Asc \<rparr>)
       \<and> (\<not> cd \<longrightarrow> currentSort st' = currentSort st)
       \<and> sortBy (compareFn tn fld (direction (currentSort st'))) (viewOf st) = Inr (viewOf st')"
  proof -
    from sortItems_total [of tn fld cd st] obtain st' where st': "sortItems tn fld cd st = Inr st'"
      and cs: "currentSort st' = update_sort fld cd (currentSort st)"
      and so: "sortBy (compareFn tn fld (direction (currentSort st'))) (viewOf st) = Inr (viewOf st')"
      by blast
    have "cd \<and> field (currentSort st) = fld \<longrightarrow>
            currentSort st' = \<lparr> field = fld, direction = flip (direction (currentSort st)) \<rparr>"
      using cs by (cases "currentSort st") (simp add: update_sort_def)
    moreover have "cd \<and> field (currentSort st) \<noteq> fld \<longrightarrow>
            currentSort st' = \<lparr> field = fld, direction = Asc \<rparr>"
      using cs by (cases "currentSort st") (simp add: update_sort_def)
    moreover have "\<not> cd \<longrightarrow> currentSort st' = currentSort st"
      using cs by (simp add: update_sort_def)
    ultimately show ?thesis using st' so by blast
  qed
  have flips: "flip Asc = Desc" "flip Desc = Asc" by (simp_all add: flip_def)
  have twice: "field (currentSort st) \<noteq> fld \<longrightarrow>
        (\<exists>st1 st2. sortItems tn fld True st = Inr st1 \<and> sortItems tn fld True st1 = Inr st2
           \<and> currentSort st1 = \<lparr> field = fld, direction = Asc \<rparr>
           \<and> currentSort st2 = \<lparr> field = fld, direction = Desc \<rparr>
           \<and> sortBy (compareFn tn fld Asc) (viewOf st) = Inr (viewOf st1)
           \<and> sortBy (compareFn tn fld Desc) (viewOf st1) = Inr (viewOf st2))"
  proof
    assume ne: "field (currentSort st) \<noteq> fld"
    from sortItems_total [of tn fld True st] obtain st1 where st1: "sortItems tn fld True st = Inr st1"
      and cs1: "currentSort st1 = update_sort fld True (currentSort st)"
      and so1: "sortBy (compareFn tn fld (direction (currentSort st1))) (viewOf st) = Inr (viewOf st1)"
      by blast
    have cs1': "currentSort st1 = \<lparr> field = fld, direction = Asc \<rparr>"
      using cs1 ne by (cases "currentSort st") (simp add: update_sort_def)
    from sortItems_total [of tn fld True st1] obtain st2 where st2: "sortItems tn fld True st1 = Inr st2"
      and cs2: "currentSort st2 = update_sort fld True (currentSort st1)"
      and so2: "sortBy (compareFn tn fld (direction (currentSort st2))) (viewOf st1) = Inr (viewOf st2)"
      by blast
    have cs2': "currentSort st2 = \<lparr> field = fld, direction = Desc \<rparr>"
      using cs2 cs1' by (simp add: update_sort_def flip_def)
    from so1 cs1' have so1': "sortBy (compareFn tn fld Asc) (viewOf st) = Inr (viewOf st1)" by simp
    from so2 cs2' have so2': "sortBy (compareFn tn fld Desc) (viewOf st1) = Inr (viewOf st2)" by simp
    show "\<exists>st1 st2. sortItems tn fld True st = Inr st1 \<and> sortItems tn fld True st1 = Inr st2
           \<and> currentSort st1 = \<lparr> field = fld, direction = Asc \<rparr>
           \<and> currentSort st2 = \<lparr> field = fld, direction = Desc \<rparr>
           \<and> sortBy (compareFn tn fld Asc) (viewOf st) = Inr (viewOf st1)
           \<and> sortBy (compareFn tn fld Desc) (viewOf st1) = Inr (viewOf st2)"
      using st1 st2 cs1' cs2' so1' so2' by (intro exI conjI)
  qed
  have fld0: "field (currentSort price_store) = ''name''" by (simp add: price_store_def)
  have ex: "\<exists>st1 st2. sortItems tn ''price'' True price_store = Inr st1
          \<and> sortItems tn ''price'' True st1 = Inr st2
          \<and> map price (viewOf st1) = [80, 150, 267]
          \<and> map price (viewOf st2) = [267, 150, 80]"
    by (rule case_sum_ex2 [where f = "sortItems tn ''price'' True"
          and P = "\<lambda>st1 st2. map price (viewOf st1) = [80, 150, 267]
                     \<and> map price (viewOf st2) = [267, 150, 80]",
          OF price_example_sorts])
  show ?thesis
    using one flips twice fld0 price_example_view ex by (intro conjI)
qed

theorem sortItems_state_witness:
  "field (currentSort (loadSampleData constructor)) \<noteq> ''weight''
   \<and> (\<exists>st1 st2. sortItems no_numbers ''weight'' True (loadSampleData constructor) = Inr st1
         \<and> sortItems no_numbers ''weight'' True st1 = Inr st2
         \<and> currentSort st1 = \<lparr> field = ''weight'', direction = Asc \<rparr>
         \<and> currentSort st2 = \<lparr> field = ''weight'', direction = Desc \<rparr>
         \<and> sortBy (compareFn no_numbers ''weight'' Asc) (viewOf (loadSampleData constructor))
             = Inr (viewOf st1)
         \<and> sortBy (compareFn no_numbers ''weight'' Desc) (viewOf st1) = Inr (viewOf st2))"
proof -
  have ne: "field (currentSort (loadSampleData constructor)) \<noteq> ''weight''"
    by (simp add: loadSampleData_def set_items_def new_array_def constructor_def)
  note t = sortItems_state [of no_numbers "''weight''" True "loadSampleData constructor"]
  have "\<exists>st1 st2. sortItems no_numbers ''weight'' True (loadSampleData constructor) = Inr st1
         \<and> sortItems no_numbers ''weight'' True st1 = Inr st2
         \<and> currentSort st1 = \<lparr> field = ''weight'', direction = Asc \<rparr>
         \<and> currentSort st2 = \<lparr> field = ''weight'', direction = Desc \<rparr>
         \<and> sortBy (compareFn no_numbers ''weight'' Asc) (viewOf (loadSampleData constructor))
             = Inr (viewOf st1)
         \<and> sortBy (compareFn no_numbers ''weight'' Desc) (viewOf st1) = Inr (viewOf st2)"
    using t ne by (elim conjE impE)
  with ne show ?thesis by (intro conjI)
qed

text \<open>
  The claim as it was worded fails twice on the sample records, loaded into a new store
  (sort state: name, ascending). Two calls with \<open>changeDirection\<close> on the field name
  sort descending, then ascending. And a call without \<open>changeDirection\<close> on the field
  price leaves the state at (name, ascending) and a view in the order of the prices,
  which is not the order of the names.
\<close>

theorem sortItems_state_counterexample:
  "(\<exists>st1 st2. sortItems no_numbers ''name'' True (loadSampleData constructor) = Inr st1
       \<and> sortItems no_numbers ''name'' True st1 = Inr st2
       \<and> field (currentSort (loadSampleData constructor)) = ''name''
       \<and> direction (currentSort st1) = Desc
       \<and> map name (viewOf st1) = [''Textbook'', ''Pemmican'', ''Herbal Medicine'']
       \<and> direction (currentSort st2) = Asc
       \<and> map name (viewOf st2) = [''Herbal Medicine'', ''Pemmican'', ''Textbook''])
   \<and> (\<exists>st'. sortItems no_numbers ''price'' False (loadSampleData constructor) = Inr st'
       \<and> currentSort st' = \<lparr> field = ''name'', direction = Asc \<rparr>
       \<and> map name (viewOf st') = [''Pemmican'', ''Herbal Medicine'', ''Textbook'']
       \<and> \<not> sorted_wrt (precedes (compareFn no_numbers ''name'' Asc)) (viewOf st'))"
proof -
  have a: "case sortItems no_numbers ''name'' True (loadSampleData constructor) of
      Inl err \<Rightarrow> False
    | Inr st1 \<Rightarrow>
        (case sortItems no_numbers ''name'' True st1 of
           Inl err \<Rightarrow> False
         | Inr st2 \<Rightarrow>
             field (currentSort (loadSampleData constructor)) = ''name''
             \<and> direction (currentSort st1) = Desc
             \<and> map name (viewOf st1) = [''Textbook'', ''Pemmican'', ''Herbal Medicine'']
             \<and> direction (currentSort st2) = Asc
             \<and> map name (viewOf st2) = [''Herbal Medicine'', ''Pemmican'', ''Textbook''])"
    by code_simp
  have first: "\<exists>st1 st2. sortItems no_numbers ''name'' True (loadSampleData constructor) = Inr st1
       \<and> sortItems no_numbers ''name'' True st1 = Inr st2
       \<and> field (currentSort (loadSampleData constructor)) = ''name''
       \<and> direction (currentSort st1) = Desc
       \<and> map name (viewOf st1) = [''Textbook'', ''Pemmican'', ''Herbal Medicine'']
       \<and> direction (currentSort st2) = Asc
       \<and> map name (viewOf st2) = [''Herbal Medicine'', ''Pemmican'', ''Textbook'']"
    by (rule case_sum_ex2 [where f = "sortItems no_numbers ''name'' True"
          and P = "\<lambda>st1 st2. field (currentSort (loadSampleData constructor)) = ''name''
             \<and> direction (currentSort st1) = Desc
             \<and> map name (viewOf st1) = [''Textbook'', ''Pemmican'', ''Herbal Medicine'']
             \<and> direction (currentSort st2) = Asc
             \<and> map name (viewOf st2) = [''Herbal Medicine'', ''Pemmican'', ''Textbook'']",
          OF a])
  have b: "case sortItems no_numbers ''price'' False (loadSampleData constructor) of
      Inl err \<Rightarrow> False
    | Inr st' \<Rightarrow> currentSort st' = \<lparr> field = ''name'', direction = Asc \<rparr>
       \<and> map name (viewOf st') = [''Pemmican'', ''Herbal Medicine'', ''Textbook'']
       \<and> \<not> sorted_wrt (precedes (compareFn no_numbers ''name'' Asc)) (viewOf st')"
    by code_simp
  have second: "\<exists>st'. sortItems no_numbers ''price'' False (loadSampleData constructor) = Inr st'
       \<and> currentSort st' = \<lparr> field = ''name'', direction = Asc \<rparr>
       \<and> map name (viewOf st') = [''Pemmican'', ''Herbal Medicine'', ''Textbook'']
       \<and> \<not> sorted_wrt (precedes (compareFn no_numbers ''name'' Asc)) (viewOf st')"
    by (rule case_sum_ex [where P = "\<lambda>st'. currentSort st' = \<lparr> field = ''name'', direction = Asc \<rparr>
       \<and> map name (viewOf st') = [''Pemmican'', ''Herbal Medicine'', ''Textbook'']
       \<and> \<not> sorted_wrt (precedes (compareFn no_numbers ''name'' Asc)) (viewOf st')", OF b])
  from first second show ?thesis by (intro conjI)
qed

subsection \<open>The loaded array\<close>

text \<open>
  C7. After \<open>loadItems\<close>, whatever it loaded, any sequence of \<open>filterItems\<close> and
  \<open>sortItems\<close> calls returns and leaves \<^verbatim>\<open>this.items\<close> the same array with the same
  records in the same order, and the view is another array. On any store whose two
  arrays are distinct, \<open>filterItems\<close> leaves the loaded array alone and makes the view a
  part of it, and \<open>sortItems\<close> leaves it alone and permutes the view.
\<close>

theorem items_never_mutated:
  "(\<exists>st'. run tn acts (loadItems fetch st0) = Inr st'
       \<and> items st' = items (loadItems fetch st0)
       \<and> itemsOf st' = itemsOf (loadItems fetch st0)
       \<and> filteredItems st' \<noteq> items st')
   \<and> (wf_store st \<longrightarrow>
        (\<exists>st'. filterItems tn t st = Inr st' \<and> wf_store st' \<and> items st' = items st
            \<and> itemsOf st' = itemsOf st \<and> mset (viewOf st') \<subseteq># mset (itemsOf st))
        \<and> (\<exists>st'. sortItems tn fld cd st = Inr st' \<and> wf_store st' \<and> items st' = items st
            \<and> itemsOf st' = itemsOf st \<and> mset (viewOf st') = mset (viewOf st)))"
proof (intro conjI impI)
  from run_frame [OF wf_loadItems, of tn acts fetch st0]
  obtain st' where "run tn acts (loadItems fetch st0) = Inr st'" "wf_store st'"
    "items st' = items (loadItems fetch st0)" "itemsOf st' = itemsOf (loadItems fetch st0)"
    by blast
  then show "\<exists>st'. run tn acts (loadItems fetch st0) = Inr st'
       \<and> items st' = items (loadItems fetch st0)
       \<and> itemsOf st' = itemsOf (loadItems fetch st0)
       \<and> filteredItems st' \<noteq> items st'"
    by (auto simp: wf_store_def)
next
  assume "wf_store st"
  then show "\<exists>st'. filterItems tn t st = Inr st' \<and> wf_store st' \<and> items st' = items st
            \<and> itemsOf st' = itemsOf st \<and> mset (viewOf st') \<subseteq># mset (itemsOf st)"
    by (rule filterItems_frame)
next
  assume "wf_store st"
  then show "\<exists>st'. sortItems tn fld cd st = Inr st' \<and> wf_store st' \<and> items st' = items st
            \<and> itemsOf st' = itemsOf st \<and> mset (viewOf st') = mset (viewOf st)"
    by (rule sortItems_frame)
qed

theorem items_never_mutated_witness:
  "wf_store (loadSampleData constructor)
   \<and> (\<exists>st'. run no_numbers [FilterItems ''med'', SortItems ''price'' True, FilterItems []]
               (loadItems (\<lambda>p. NotOk) constructor) = Inr st'
         \<and> (items st' = items (loadItems (\<lambda>p. NotOk) constructor)
            \<and> itemsOf st' = itemsOf (loadItems (\<lambda>p. NotOk) constructor)
            \<and> filteredItems st' \<noteq> items st')
         \<and> (map price (itemsOf st') = [267, 150, 80] \<and> map price (viewOf st') = [80, 150, 267]))
   \<and> (\<exists>st'. sortItems no_numbers ''price'' True (loadSampleData constructor) = Inr st'
            \<and> wf_store st' \<and> items st' = items (loadSampleData constructor)
            \<and> itemsOf st' = itemsOf (loadSampleData constructor)
            \<and> mset (viewOf st') = mset (viewOf (loadSampleData constructor)))"
proof -
  note t = items_never_mutated [of no_numbers
      "[FilterItems ''med'', SortItems ''price'' True, FilterItems []]" "\<lambda>p. NotOk" constructor
      "loadSampleData constructor" "[]" "''price''" True]
  have wf: "wf_store (loadSampleData constructor)"
    by (simp add: loadSampleData_def wf_set_items)
  have a: "\<exists>st'. run no_numbers [FilterItems ''med'', SortItems ''price'' True, FilterItems []]
               (loadItems (\<lambda>p. NotOk) constructor) = Inr st'
         \<and> (items st' = items (loadItems (\<lambda>p. NotOk) constructor)
            \<and> itemsOf st' = itemsOf (loadItems (\<lambda>p. NotOk) constructor)
            \<and> filteredItems st' \<noteq> items st')"
    using t by (elim conjE)
  have b: "case run no_numbers [FilterItems ''med'', SortItems ''price'' True, FilterItems []]
               (loadItems (\<lambda>p. NotOk) constructor) of
             Inl err \<Rightarrow> False
           | Inr st' \<Rightarrow> map price (itemsOf st') = [267, 150, 80]
                \<and> map price (viewOf st') = [80, 150, 267]"
    by code_simp
  have c: "\<exists>st'. sortItems no_numbers ''price'' True (loadSampleData constructor) = Inr st'
            \<and> wf_store st' \<and> items st' = items (loadSampleData constructor)
            \<and> itemsOf st' = itemsOf (loadSampleData constructor)
            \<and> mset (viewOf st') = mset (viewOf (loadSampleData constructor))"
    using t wf by (elim conjE impE)
  from wf ex_Inr_combine [OF a b] c show ?thesis by (intro conjI)
qed

end
